theory Spec2Isabelle
  imports Complex_Main "HOL-Library.Sublist" "HOL-Library.AList"
begin

section \<open>Strings\<close>

text \<open>
  A Python \<open>str\<close> is modelled as a \<open>string\<close>: a list of characters, one \<open>char\<close> per
  code point, for the code points below 256 (ASCII and the Latin-1 supplement, which holds
  the accented letters of the Portuguese patterns). The predicates and functions of
  this section are Python's \<open>str\<close> methods and the character classes of \<open>re\<close> on that range.
\<close>

abbreviation a_acute :: char where "a_acute \<equiv> CHR 0xE1"
abbreviation a_tilde :: char where "a_tilde \<equiv> CHR 0xE3"
abbreviation c_cedilla :: char where "c_cedilla \<equiv> CHR 0xE7"
abbreviation e_acute :: char where "e_acute \<equiv> CHR 0xE9"

definition code :: "char \<Rightarrow> nat" where
  "code c = of_char c"

text \<open>\<open>str.isspace\<close> on one character, which is also the class \<open>\s\<close> of a \<open>str\<close> pattern.\<close>

definition isspace :: "char \<Rightarrow> bool" where
  "isspace c = (let n = code c in (9 \<le> n \<and> n \<le> 13) \<or> (28 \<le> n \<and> n \<le> 32) \<or> n = 133 \<or> n = 160)"

definition is_ascii_upper :: "char \<Rightarrow> bool" where
  "is_ascii_upper c = (65 \<le> code c \<and> code c \<le> 90)"

definition is_ascii_lower :: "char \<Rightarrow> bool" where
  "is_ascii_lower c = (97 \<le> code c \<and> code c \<le> 122)"

definition is_ascii_digit :: "char \<Rightarrow> bool" where
  "is_ascii_digit c = (48 \<le> code c \<and> code c \<le> 57)"

text \<open>The upper-case letters: \<open>A-Z\<close>, and \<open>0xC0-0xDE\<close> without the multiplication sign.\<close>

definition isupper :: "char \<Rightarrow> bool" where
  "isupper c = (is_ascii_upper c \<or> (192 \<le> code c \<and> code c \<le> 222 \<and> code c \<noteq> 215))"

definition char_lower :: "char \<Rightarrow> char" where
  "char_lower c = (if isupper c then char_of (code c + 32) else c)"

definition str_lower :: "string \<Rightarrow> string" where
  "str_lower s = map char_lower s"

text \<open>
  The class \<open>\w\<close> of a \<open>str\<close> pattern: the underscore and every character that
  \<open>str.isalnum\<close> accepts (letters, digits, superscript digits and vulgar fractions).
\<close>

definition isalnum :: "char \<Rightarrow> bool" where
  "isalnum c = (let n = code c in
     is_ascii_upper c \<or> is_ascii_lower c \<or> is_ascii_digit c \<or>
     n = 170 \<or> n = 178 \<or> n = 179 \<or> n = 181 \<or> n = 185 \<or> n = 186 \<or>
     n = 188 \<or> n = 189 \<or> n = 190 \<or>
     (192 \<le> n \<and> n \<noteq> 215 \<and> n \<noteq> 247))"

definition isword :: "char \<Rightarrow> bool" where
  "isword c = (isalnum c \<or> c = CHR ''_'')"

text \<open>\<open>s.strip()\<close> and \<open>s.strip('_')\<close>.\<close>

definition strip_chars :: "(char \<Rightarrow> bool) \<Rightarrow> string \<Rightarrow> string" where
  "strip_chars P s = rev (dropWhile P (rev (dropWhile P s)))"

definition str_strip :: "string \<Rightarrow> string" where
  "str_strip s = strip_chars isspace s"

text \<open>
  \<open>s.split()\<close>: the maximal runs of characters that are not white space. The second
  argument is the word being read.
\<close>

fun split_from :: "string \<Rightarrow> string \<Rightarrow> string list" where
  "split_from [] cur = (if cur = [] then [] else [cur])"
| "split_from (c # cs) cur =
     (if isspace c then (if cur = [] then split_from cs [] else cur # split_from cs [])
      else split_from cs (cur @ [c]))"

definition str_split :: "string \<Rightarrow> string list" where
  "str_split s = split_from s []"

text \<open>\<open>sep.join(words)\<close>.\<close>

fun str_join :: "string \<Rightarrow> string list \<Rightarrow> string" where
  "str_join sep [] = []"
| "str_join sep [w] = w"
| "str_join sep (w # ws) = w @ sep @ str_join sep ws"

text \<open>\<open>a in b\<close> for two strings: \<open>a\<close> occurs in \<open>b\<close> as a contiguous block.\<close>

fun str_in :: "string \<Rightarrow> string \<Rightarrow> bool" where
  "str_in a [] = (a = [])"
| "str_in a (c # cs) = (prefix a (c # cs) \<or> str_in a cs)"

text \<open>
  \<open>re.sub(r'\s+', '_', s)\<close>: every maximal run of white space becomes one underscore.
  The flag says that the previous character was white space.
\<close>

fun sub_spaces :: "bool \<Rightarrow> string \<Rightarrow> string" where
  "sub_spaces in_run [] = []"
| "sub_spaces in_run (c # cs) =
     (if isspace c then (if in_run then sub_spaces True cs else CHR ''_'' # sub_spaces True cs)
      else c # sub_spaces False cs)"

section \<open>Regular expressions\<close>

text \<open>
  The patterns of the query processor use literals, alternation, groups and quantifiers
  on one character or character class. \<open>rmatch\<close> is a backtracking matcher in the order
  of Python's \<open>re\<close>: it lists every way a pattern matches at the start of the input, the
  preferred one first (a greedy quantifier tries the longest run first, a lazy one the
  shortest, an alternation its branches from left to right), each with the rest of the
  input and the texts of the groups closed so far. Every pattern is compiled with
  \<open>re.IGNORECASE\<close>, so a literal character matches in either case.
\<close>

datatype atom = Chr char | Dot | Space | LetterSpace

datatype regex =
    Lit string
  | Opt atom
  | Star atom
  | Plus atom
  | LazyStar atom
  | Alt "regex list"
  | Seq "regex list"
  | Group regex

text \<open>\<open>LetterSpace\<close> is the class \<open>[a-zA-Z_\s]\<close>; \<open>Dot\<close> matches all but a newline.\<close>

fun atom_match :: "atom \<Rightarrow> char \<Rightarrow> bool" where
  "atom_match (Chr x) c = (char_lower c = char_lower x)"
| "atom_match Dot c = (c \<noteq> CHR 0x0A)"
| "atom_match Space c = isspace c"
| "atom_match LetterSpace c = (is_ascii_lower c \<or> is_ascii_upper c \<or> c = CHR ''_'' \<or> isspace c)"

fun lit_match :: "string \<Rightarrow> string \<Rightarrow> string option" where
  "lit_match [] s = Some s"
| "lit_match (p # ps) [] = None"
| "lit_match (p # ps) (c # cs) = (if char_lower c = char_lower p then lit_match ps cs else None)"

text \<open>The inputs left after a greedy run of zero or more matching characters, longest run first.\<close>

fun greedy_rests :: "atom \<Rightarrow> string \<Rightarrow> string list" where
  "greedy_rests a [] = [Nil]"
| "greedy_rests a (c # cs) = (if atom_match a c then greedy_rests a cs @ [c # cs] else [c # cs])"

text \<open>The same for a lazy run, shortest run first.\<close>

fun lazy_rests :: "atom \<Rightarrow> string \<Rightarrow> string list" where
  "lazy_rests a [] = [Nil]"
| "lazy_rests a (c # cs) = (c # cs) # (if atom_match a c then lazy_rests a cs else [])"

fun rmatch :: "regex \<Rightarrow> string \<Rightarrow> string list \<Rightarrow> (string \<times> string list) list" where
  "rmatch (Lit l) s caps = (case lit_match l s of None \<Rightarrow> [] | Some rest \<Rightarrow> [(rest, caps)])"
| "rmatch (Opt a) s caps =
     (case s of [] \<Rightarrow> [(s, caps)]
      | c # cs \<Rightarrow> if atom_match a c then [(cs, caps), (s, caps)] else [(s, caps)])"
| "rmatch (Star a) s caps = map (\<lambda>rest. (rest, caps)) (greedy_rests a s)"
| "rmatch (Plus a) s caps =
     (case s of [] \<Rightarrow> []
      | c # cs \<Rightarrow> if atom_match a c then map (\<lambda>rest. (rest, caps)) (greedy_rests a cs) else [])"
| "rmatch (LazyStar a) s caps = map (\<lambda>rest. (rest, caps)) (lazy_rests a s)"
| "rmatch (Alt rs) s caps = concat (map (\<lambda>r. rmatch r s caps) rs)"
| "rmatch (Seq []) s caps = [(s, caps)]"
| "rmatch (Seq (r # rs)) s caps =
     concat (map (\<lambda>m. rmatch (Seq rs) (fst m) (snd m)) (rmatch r s caps))"
| "rmatch (Group r) s caps =
     map (\<lambda>m. (fst m, snd m @ [take (length s - length (fst m)) s])) (rmatch r s caps)"

text \<open>
  \<open>re.search\<close>: the first position of the input at which the pattern matches, and there
  the preferred match. The result is the texts of the groups, \<open>None\<close> when no position
  matches.
\<close>

fun search :: "regex \<Rightarrow> string \<Rightarrow> string list option" where
  "search r [] = (case rmatch r [] [] of [] \<Rightarrow> None | m # _ \<Rightarrow> Some (snd m))"
| "search r (c # cs) = (case rmatch r (c # cs) [] of [] \<Rightarrow> search r cs | m # _ \<Rightarrow> Some (snd m))"

section \<open>The query processor\<close>

datatype py_error = IndexError | AttributeError | TypeError

datatype QueryType =
  WHAT_IS | WHAT_USES | WHAT_IS_TYPE_OF | WHO_CREATED | HOW_RELATED | LIST_BY_TYPE | FIND_SIMILAR

record QueryIntent =
  query_type :: QueryType
  entities :: "string list"
  confidence :: real
  raw_question :: string

subsection \<open>The patterns of \<open>_setup_patterns\<close>\<close>

text \<open>The group \<open>([a-zA-Z_\s]+)\<close> and the separator \<open>\s+\<close>.\<close>

definition name_group :: regex where
  "name_group = Group (Plus LetterSpace)"

definition spaces :: regex where
  "spaces = Plus Space"

definition what_is_patterns :: "regex list" where
  "what_is_patterns =
    [Seq [Alt [Lit (''o que '' @ [e_acute]), Lit ''what is'', Lit ''define'',
               Lit (''defini'' @ [c_cedilla, a_tilde] @ ''o de''), Lit ''conceito de''],
          spaces, name_group],
     Seq [name_group, spaces,
          Alt [Lit ([e_acute] @ '' o que''), Lit [e_acute], Lit ''significa o que'']],
     Seq [Alt [Lit ''explique'', Lit ''explain''], spaces, name_group]]"

definition what_uses_patterns :: "regex list" where
  "what_uses_patterns =
    [Seq [Alt [Lit ''o que usa'', Lit ''what uses'',
               Seq [Lit ''quai'', Opt (Chr CHR ''s''), Star Dot, Lit ''usa'', Opt (Chr CHR ''m'')],
               Seq [Lit ''algoritmo'', Opt (Chr CHR ''s''), Lit '' que usa'', Opt (Chr CHR ''m'')]],
          spaces, name_group],
     Seq [Alt [Seq [Lit ''quai'', Opt (Chr CHR ''s'')], Lit ''what''], Star Dot,
          Alt [Seq [Lit ''implementa'', Opt (Chr CHR ''m'')], Lit ''implement''],
          spaces, name_group],
     Seq [Alt [Lit ''find'', Lit ''encontre''], Star Dot,
          Alt [Lit ''que usa'', Seq [Lit ''that use'', Opt (Chr CHR ''s'')]],
          spaces, name_group]]"

definition type_of_patterns :: "regex list" where
  "type_of_patterns =
    [Seq [name_group, spaces,
          Alt [Lit ([e_acute] @ '' um tipo de que''), Lit ''is a type of what'',
               Lit ([e_acute] @ '' uma subclasse de'')]],
     Seq [Alt [Lit ''que tipo de'', Lit ''what type of''], Star Dot,
          Alt [Lit [e_acute], Lit ''is''], spaces, name_group],
     Seq [name_group, spaces, Alt [Lit ''extends'', Lit ''estende'', Lit ''herda de'']]]"

definition who_created_patterns :: "regex list" where
  "who_created_patterns =
    [Seq [Alt [Lit ''quem criou'', Lit ''who created'', Lit ''quem desenvolveu'',
               Lit ''who developed''],
          spaces, name_group],
     Seq [Alt [Lit ''autor de'', Lit ''author of'', Lit ''creator of''], spaces, name_group],
     Seq [name_group, spaces,
          Alt [Lit ''foi criado por'', Lit ''was created by'', Lit ''foi desenvolvido por'']]]"

definition how_related_patterns :: "regex list" where
  "how_related_patterns =
    [Seq [Alt [Lit ''como'', Lit ''how''], spaces, name_group, spaces,
          Alt [Lit (''est'' @ [a_acute] @ '' relacionado com''), Lit ''is related to'',
               Lit ''se relaciona com''],
          spaces, name_group],
     Seq [Alt [Lit (''rela'' @ [c_cedilla, a_tilde] @ ''o entre''), Lit ''relationship between''],
          spaces, name_group, spaces, Alt [Lit ''e'', Lit ''and''], spaces, name_group]]"

text \<open>The group \<open>(algoritmos?|algorithms?|conceitos?|concepts?|m\'etricas?|metrics?)\<close>.\<close>

definition type_group :: regex where
  "type_group =
    Group (Alt [Seq [Lit ''algoritmo'', Opt (Chr CHR ''s'')],
                Seq [Lit ''algorithm'', Opt (Chr CHR ''s'')],
                Seq [Lit ''conceito'', Opt (Chr CHR ''s'')],
                Seq [Lit ''concept'', Opt (Chr CHR ''s'')],
                Seq [Lit (''m'' @ [e_acute] @ ''trica''), Opt (Chr CHR ''s'')],
                Seq [Lit ''metric'', Opt (Chr CHR ''s'')]])"

definition list_by_type_patterns :: "regex list" where
  "list_by_type_patterns =
    [Seq [Alt [Lit ''liste'', Lit ''list'', Lit (''quais s'' @ [a_tilde] @ ''o''), Lit ''what are''],
          LazyStar Dot, type_group],
     Seq [Alt [Lit ''todos os'', Lit ''all'', Lit ''all the''], spaces, type_group],
     Seq [Alt [Lit ''show'', Lit ''mostre''], LazyStar Dot, type_group]]"

definition find_similar_patterns :: "regex list" where
  "find_similar_patterns =
    [Seq [Alt [Lit ''encontre'', Lit ''find'', Lit ''busque''], Star Dot,
          Alt [Lit ''similar'', Lit ''parecido'', Lit ''semelhante''], Star Dot,
          Alt [Lit ''a'', Lit ''to'', Lit ''with''], spaces, name_group],
     Seq [Alt [Seq [Lit ''conceito'', Opt (Chr CHR ''s'')], Seq [Lit ''algorithm'', Opt (Chr CHR ''s'')]],
          Star Dot, Alt [Lit ''similar'', Lit ''parecido'', Lit ''semelhante''], Star Dot,
          Alt [Lit ''a'', Lit ''to''], spaces, name_group]]"

subsection \<open>Entity extraction\<close>

definition stop_words :: "string list" where
  "stop_words = [''o'', ''a'', ''os'', ''as'', ''de'', ''da'', ''do'', ''das'', ''dos'',
                 ''the'', ''of'', ''for'']"

text \<open>\<open>re.sub(r'[^a-z0-9_]', '', s)\<close> keeps exactly these characters.\<close>

definition is_token_char :: "char \<Rightarrow> bool" where
  "is_token_char c = (is_ascii_lower c \<or> is_ascii_digit c \<or> c = CHR ''_'')"

definition normalize_entity_name :: "string \<Rightarrow> string" where
  "normalize_entity_name entity =
    (let words = str_split (str_lower entity);
         filtered_words = filter (\<lambda>word. word \<notin> set stop_words) words;
         normalized = str_join ''_'' filtered_words
     in filter is_token_char normalized)"

text \<open>\<open>match.group(n)\<close>, which raises IndexError when the pattern has no such group.\<close>

definition group :: "string list \<Rightarrow> nat \<Rightarrow> py_error + string" where
  "group caps n = (if 0 < n \<and> n \<le> length caps then Inr (caps ! (n - 1)) else Inl IndexError)"

definition extract_single_entity :: "string list \<Rightarrow> py_error + string list" where
  "extract_single_entity m =
    (case group m 1 of Inl e \<Rightarrow> Inl e
     | Inr g \<Rightarrow> Inr [normalize_entity_name (str_strip g)])"

definition extract_two_entities :: "string list \<Rightarrow> py_error + string list" where
  "extract_two_entities m =
    (case group m 1 of Inl e \<Rightarrow> Inl e
     | Inr g1 \<Rightarrow>
        (case group m 2 of Inl e \<Rightarrow> Inl e
         | Inr g2 \<Rightarrow>
            Inr [normalize_entity_name (str_strip g1), normalize_entity_name (str_strip g2)]))"

definition type_mapping :: "(string \<times> string) list" where
  "type_mapping =
    [(''algoritmos'', ''algorithm''), (''algoritmo'', ''algorithm''),
     (''algorithms'', ''algorithm''), (''algorithm'', ''algorithm''),
     (''conceitos'', ''concept''), (''conceito'', ''concept''),
     (''concepts'', ''concept''), (''concept'', ''concept''),
     (''m'' @ [e_acute] @ ''tricas'', ''metric''), (''m'' @ [e_acute] @ ''trica'', ''metric''),
     (''metrics'', ''metric''), (''metric'', ''metric'')]"

definition extract_type_entity :: "string list \<Rightarrow> py_error + string list" where
  "extract_type_entity m =
    (case group m 1 of Inl e \<Rightarrow> Inl e
     | Inr g \<Rightarrow>
        (let entity_type = str_strip g
         in Inr [case map_of type_mapping (str_lower entity_type) of
                   None \<Rightarrow> entity_type | Some t \<Rightarrow> t]))"

subsection \<open>\<open>process_question\<close>\<close>

text \<open>
  The inner loop over the patterns of one query type: the first pattern that matches
  and whose extractor returns a non-empty list wins. An exception of the extractor
  leaves \<open>process_question\<close>.
\<close>

fun try_patterns ::
  "regex list \<Rightarrow> (string list \<Rightarrow> py_error + string list) \<Rightarrow> string
    \<Rightarrow> py_error + string list option" where
  "try_patterns [] entity_extractor question = Inr None"
| "try_patterns (pattern # patterns) entity_extractor question =
     (case search pattern question of
        None \<Rightarrow> try_patterns patterns entity_extractor question
      | Some m \<Rightarrow>
         (case entity_extractor m of
            Inl e \<Rightarrow> Inl e
          | Inr ents \<Rightarrow>
             if ents \<noteq> [] then Inr (Some ents)
             else try_patterns patterns entity_extractor question))"

definition intent_checks ::
  "(regex list \<times> QueryType \<times> (string list \<Rightarrow> py_error + string list)) list" where
  "intent_checks =
    [(what_is_patterns, WHAT_IS, extract_single_entity),
     (what_uses_patterns, WHAT_USES, extract_single_entity),
     (type_of_patterns, WHAT_IS_TYPE_OF, extract_single_entity),
     (who_created_patterns, WHO_CREATED, extract_single_entity),
     (how_related_patterns, HOW_RELATED, extract_two_entities),
     (list_by_type_patterns, LIST_BY_TYPE, extract_type_entity),
     (find_similar_patterns, FIND_SIMILAR, extract_single_entity)]"

text \<open>The outer loop over the query types, in their priority order.\<close>

fun try_checks ::
  "(regex list \<times> QueryType \<times> (string list \<Rightarrow> py_error + string list)) list \<Rightarrow> string
    \<Rightarrow> py_error + (QueryType \<times> string list) option" where
  "try_checks [] question = Inr None"
| "try_checks ((patterns, qt, entity_extractor) # checks) question =
     (case try_patterns patterns entity_extractor question of
        Inl e \<Rightarrow> Inl e
      | Inr (Some ents) \<Rightarrow> Inr (Some (qt, ents))
      | Inr None \<Rightarrow> try_checks checks question)"

text \<open>
  The fallback indexes the list of words with \<open>[-1]\<close>, which raises IndexError on the
  empty list. The confidences are the decimal literals of the source.
\<close>

definition process_question :: "string \<Rightarrow> py_error + QueryIntent" where
  "process_question q =
    (let question = str_strip (str_lower q)
     in case try_checks intent_checks question of
          Inl e \<Rightarrow> Inl e
        | Inr (Some (qt, ents)) \<Rightarrow>
            Inr \<lparr>query_type = qt, entities = ents, confidence = 8 / 10, raw_question = question\<rparr>
        | Inr None \<Rightarrow>
            (case str_split question of
               [] \<Rightarrow> Inl IndexError
             | w # ws \<Rightarrow>
                 Inr \<lparr>query_type = WHAT_IS, entities = [last (w # ws)], confidence = 3 / 10,
                      raw_question = question\<rparr>))"

section \<open>The knowledge graph builder\<close>

text \<open>
  An RDF term is a URI reference or a literal; a literal holds a Python value and, when
  given, the URI of its datatype. A graph of \<open>rdflib\<close> is a set of triples: it is kept
  here as a list without repetition, \<open>graph_add\<close> being the \<open>add\<close> of \<open>rdflib\<close>, which
  leaves a graph that already holds the triple as it is, and \<open>length\<close> being \<open>len\<close>.
\<close>

datatype py_value = PyStr string | PyInt int | PyFloat real

datatype node = URIRef string | Literal py_value "string option"

type_synonym triple = "node \<times> node \<times> node"

definition graph_add :: "triple \<Rightarrow> triple list \<Rightarrow> triple list" where
  "graph_add t g = (if t \<in> set g then g else g @ [t])"

text \<open>The namespace of the ontology, the first of the three that the builder binds.\<close>

definition ONTO :: "string \<Rightarrow> node" where
  "ONTO name = URIRef (''http://ml-kg.org/ontology/'' @ name)"

definition ENTITY_ns :: string where
  "ENTITY_ns = ''http://ml-kg.org/entity/''"

definition ENTITY :: "string \<Rightarrow> node" where
  "ENTITY name = URIRef (ENTITY_ns @ name)"

definition RELATION :: "string \<Rightarrow> node" where
  "RELATION name = URIRef (''http://ml-kg.org/relation/'' @ name)"

definition RDF_type :: node where
  "RDF_type = URIRef ''http://www.w3.org/1999/02/22-rdf-syntax-ns#type''"

definition RDFS :: "string \<Rightarrow> node" where
  "RDFS name = URIRef (''http://www.w3.org/2000/01/rdf-schema#'' @ name)"

definition OWL :: "string \<Rightarrow> node" where
  "OWL name = URIRef (''http://www.w3.org/2002/07/owl#'' @ name)"

definition XSD :: "string \<Rightarrow> string" where
  "XSD name = ''http://www.w3.org/2001/XMLSchema#'' @ name"

record Relation =
  subject :: string
  predicate :: string
  object :: string
  chunk_id :: string
  rel_confidence :: real
  rel_context :: string

record builder =
  graph :: "triple list"
  entities_added :: nat
  relations_added :: nat
  entity_types :: "(string \<times> nat) list"
  relation_types :: "(string \<times> nat) list"

definition new_builder :: builder where
  "new_builder = \<lparr>graph = [], entities_added = 0, relations_added = 0, entity_types = [],
                   relation_types = []\<rparr>"

text \<open>
  \<open>_create_entity_uri\<close>: \<open>re.sub(r'[^\w\s-]', '', name)\<close>, then
  \<open>re.sub(r'\s+', '_', ...)\<close>, then \<open>.lower().strip('_')\<close>.
\<close>

definition clean_name :: "string \<Rightarrow> string" where
  "clean_name entity_name =
    (let c1 = filter (\<lambda>c. isword c \<or> isspace c \<or> c = CHR ''-'') entity_name;
         c2 = sub_spaces False c1
     in strip_chars (\<lambda>c. c = CHR ''_'') (str_lower c2))"

definition create_entity_uri :: "string \<Rightarrow> node" where
  "create_entity_uri entity_name = ENTITY (clean_name entity_name)"

definition create_relation_uri :: "string \<Rightarrow> node" where
  "create_relation_uri relation_name = RELATION (str_lower relation_name)"

text \<open>\<open>s.replace('_', ' ')\<close>.\<close>

definition underscores_to_spaces :: "string \<Rightarrow> string" where
  "underscores_to_spaces s = map (\<lambda>c. if c = CHR ''_'' then CHR '' '' else c) s"

definition add_relation_property :: "string \<Rightarrow> triple list \<Rightarrow> node \<times> triple list" where
  "add_relation_property relation_type g =
    (let property_uri = create_relation_uri relation_type
     in if (property_uri, RDF_type, OWL ''ObjectProperty'') \<notin> set g
        then (property_uri,
              graph_add (property_uri, RDFS ''label'',
                         Literal (PyStr (underscores_to_spaces relation_type)) None)
                (graph_add (property_uri, RDF_type, OWL ''ObjectProperty'') g))
        else (property_uri, g))"

subsection \<open>\<open>add_ontology_schema\<close>\<close>

definition main_classes :: "(string \<times> string) list" where
  "main_classes =
    [(''Algorithm'', ''Machine Learning Algorithm''),
     (''Concept'', ''Machine Learning Concept''),
     (''Person'', ''Person or Researcher''),
     (''Organization'', ''Organization or Institution''),
     (''Software'', ''Software or Tool''),
     (''Metric'', ''Evaluation Metric''),
     (''Dataset'', ''Dataset or Data Source''),
     (''Publication'', ''Academic Publication'')]"

definition main_properties :: "(string \<times> string) list" where
  "main_properties =
    [(''is_a'', ''is a type of''),
     (''part_of'', ''is part of''),
     (''uses'', ''uses or utilizes''),
     (''implements'', ''implements''),
     (''optimizes'', ''optimizes''),
     (''measures'', ''measures or evaluates''),
     (''created_by'', ''was created by''),
     (''applies_to'', ''applies to'')]"

text \<open>The body of the loop over \<open>main_classes\<close>, and of the loop over \<open>main_properties\<close>.\<close>

definition add_class :: "triple list \<Rightarrow> string \<times> string \<Rightarrow> triple list" where
  "add_class g cd =
    (let class_uri = ONTO (str_lower (fst cd))
     in graph_add (class_uri, RDFS ''subClassOf'', ONTO ''Entity'')
          (graph_add (class_uri, RDFS ''comment'', Literal (PyStr (snd cd)) None)
            (graph_add (class_uri, RDFS ''label'', Literal (PyStr (fst cd)) None)
              (graph_add (class_uri, RDF_type, OWL ''Class'') g))))"

definition add_property :: "triple list \<Rightarrow> string \<times> string \<Rightarrow> triple list" where
  "add_property g pd =
    (let prop_uri = create_relation_uri (fst pd)
     in graph_add (prop_uri, RDFS ''comment'', Literal (PyStr (snd pd)) None)
          (graph_add (prop_uri, RDFS ''label'', Literal (PyStr (underscores_to_spaces (fst pd))) None)
            (graph_add (prop_uri, RDF_type, OWL ''ObjectProperty'') g)))"

definition add_ontology_schema :: "builder \<Rightarrow> builder" where
  "add_ontology_schema b =
    (let g1 = graph_add (ONTO ''Entity'', RDF_type, OWL ''Class'') (graph b);
         g2 = graph_add (ONTO ''Entity'', RDFS ''label'',
                         Literal (PyStr ''Machine Learning Entity'') None) g1;
         g3 = foldl add_class g2 main_classes;
         g4 = foldl add_property g3 main_properties
     in b\<lparr>graph := g4\<rparr>)"

subsection \<open>\<open>add_relations\<close>\<close>

text \<open>\<open>str(n)\<close> for a natural number: its decimal digits.\<close>

definition digit_char :: "nat \<Rightarrow> char" where
  "digit_char d = char_of (48 + d)"

fun str_of_nat :: "nat \<Rightarrow> string" where
  "str_of_nat n = (if n < 10 then [digit_char n] else str_of_nat (n div 10) @ [digit_char (n mod 10)])"

declare str_of_nat.simps [simp del]

text \<open>\<open>d[k] = d.get(k, 0) + 1\<close> on a dictionary of counters.\<close>

definition count_up :: "string \<Rightarrow> (string \<times> nat) list \<Rightarrow> (string \<times> nat) list" where
  "count_up k d = AList.update k (case map_of d k of None \<Rightarrow> 1 | Some n \<Rightarrow> n + 1) d"

text \<open>
  The body of the loop of \<open>add_relations\<close>. The fields of a \<open>Relation\<close> are strings and a
  float, on which no call of the body raises.
\<close>

definition add_relation :: "builder \<Rightarrow> Relation \<Rightarrow> builder" where
  "add_relation b relation =
    (let subject_uri = create_entity_uri (subject relation);
         object_uri = create_entity_uri (object relation);
         pg = add_relation_property (predicate relation) (graph b);
         predicate_uri = fst pg;
         g1 = graph_add (subject_uri, predicate_uri, object_uri) (snd pg);
         relation_instance_uri = ENTITY (''rel_'' @ str_of_nat (relations_added b));
         g2 = graph_add (relation_instance_uri, RDF_type, ONTO ''Relation'') g1;
         g3 = graph_add (relation_instance_uri, ONTO ''subject'', subject_uri) g2;
         g4 = graph_add (relation_instance_uri, ONTO ''predicate'', predicate_uri) g3;
         g5 = graph_add (relation_instance_uri, ONTO ''object'', object_uri) g4;
         g6 = graph_add (relation_instance_uri, ONTO ''context'',
                         Literal (PyStr (rel_context relation)) None) g5;
         g7 = graph_add (relation_instance_uri, ONTO ''sourceChunk'',
                         Literal (PyStr (chunk_id relation)) None) g6;
         g8 = graph_add (relation_instance_uri, ONTO ''confidence'',
                         Literal (PyFloat (rel_confidence relation)) (Some (XSD ''float''))) g7
     in b\<lparr>graph := g8, relations_added := relations_added b + 1,
           relation_types := count_up (predicate relation) (relation_types b)\<rparr>)"

definition add_relations :: "builder \<Rightarrow> Relation list \<Rightarrow> builder" where
  "add_relations b relations = foldl add_relation b relations"

section \<open>The executor's statistics\<close>

text \<open>
  The executor reads the graph the builder saved. \<open>get_stats\<close> counts, with
  \<open>COUNT(DISTINCT ?entity)\<close>, the subjects whose URI starts with the entity namespace.
  \<open>execute_sparql\<close> copies a value of a row only when the value is true, and the literal
  of the count 0 is false in \<open>rdflib\<close>: the row then has no key \<open>count\<close>, and reading it
  raises KeyError.
\<close>

datatype stats_error = KeyError

record kg_stats =
  total_triples :: nat
  total_entities :: nat
  total_relations :: nat

definition in_entity_namespace :: "node \<Rightarrow> bool" where
  "in_entity_namespace n = (case n of URIRef u \<Rightarrow> prefix ENTITY_ns u | Literal v d \<Rightarrow> False)"

definition entity_subjects :: "triple list \<Rightarrow> node list" where
  "entity_subjects g = remdups (filter in_entity_namespace (map fst g))"

definition get_stats :: "triple list \<Rightarrow> stats_error + kg_stats" where
  "get_stats g =
    (let n = length (entity_subjects g)
     in if n = 0 then Inl KeyError
        else Inr \<lparr>total_triples = length g, total_entities = n, total_relations = 0\<rparr>)"

section \<open>Replies of the language model\<close>

text \<open>
  The normalizer and the relation extractor send a prompt to a language model and read
  its reply with \<open>json.loads\<close>. A parsed reply is a JSON value; an object is the list of
  its members, read with \<open>map_of\<close> and written with \<open>AList.update\<close>. The model and the
  parser are a parameter \<open>chat\<close> of the functions below: it gives the value that
  \<open>_parse_llm_response\<close> or \<open>_parse_relations_response\<close> returns, or \<open>None\<close> when the call of
  the model raises. The statistics counters of both classes do not enter the values that
  the functions return, and are left out.
\<close>

datatype json =
    JNull
  | JBool bool
  | JNum real
  | JStr string
  | JArr "json list"
  | JObj "(string \<times> json) list"

text \<open>
  \<open>for x in v\<close>: a list gives its elements, an object its keys, a string its characters;
  any other value is not iterable.
\<close>

fun py_iter :: "json \<Rightarrow> py_error + json list" where
  "py_iter (JArr xs) = Inr xs"
| "py_iter (JObj d) = Inr (map (\<lambda>kv. JStr (fst kv)) d)"
| "py_iter (JStr s) = Inr (map (\<lambda>c. JStr [c]) s)"
| "py_iter v = Inl TypeError"

text \<open>\<open>d.get(k, '').strip()\<close>, which raises AttributeError on a value that is no string.\<close>

definition get_stripped :: "(string \<times> json) list \<Rightarrow> string \<Rightarrow> py_error + string" where
  "get_stripped d k =
    (case map_of d k of
       None \<Rightarrow> Inr (str_strip [])
     | Some (JStr s) \<Rightarrow> Inr (str_strip s)
     | Some v \<Rightarrow> Inl AttributeError)"

section \<open>The relation extractor\<close>

record TextChunk =
  tc_chunk_id :: string
  content :: string
  source_book :: string
  chunk_number :: int
  word_count :: int

definition relation_schema :: "(string \<times> string) list" where
  "relation_schema =
    [(''is_a'', ''X is a type of Y''),
     (''part_of'', ''X is part of Y''),
     (''subclass_of'', ''X is a subclass of Y''),
     (''uses'', ''X uses Y''),
     (''implements'', ''X implements Y''),
     (''optimizes'', ''X optimizes Y''),
     (''applies_to'', ''X applies to Y''),
     (''solves'', ''X solves Y''),
     (''requires'', ''X requires Y''),
     (''depends_on'', ''X depends on Y''),
     (''based_on'', ''X is based on Y''),
     (''extends'', ''X extends Y''),
     (''outperforms'', ''X outperforms Y''),
     (''compared_to'', ''X compared to Y''),
     (''equivalent_to'', ''X is equivalent to Y''),
     (''precedes'', ''X precedes Y''),
     (''evolved_from'', ''X evolved from Y''),
     (''trained_on'', ''X is trained on Y''),
     (''evaluated_on'', ''X is evaluated on Y''),
     (''measures'', ''X measures Y''),
     (''predicts'', ''X predicts Y''),
     (''created_by'', ''X was created by Y''),
     (''proposed_by'', ''X was proposed by Y''),
     (''developed_by'', ''X was developed by Y'')]"

definition schema_keys :: "string list" where
  "schema_keys = map fst relation_schema"

text \<open>
  The test \<open>a.lower() in e.lower() or e.lower() in a.lower()\<close> of
  \<open>_filter_valid_relations\<close>.
\<close>

definition fuzzy_match :: "string \<Rightarrow> string \<Rightarrow> bool" where
  "fuzzy_match a e = (str_in (str_lower a) (str_lower e) \<or> str_in (str_lower e) (str_lower a))"

definition same_predicate :: "string \<Rightarrow> string \<Rightarrow> bool" where
  "same_predicate p k = (str_lower k = str_lower p)"

text \<open>
  An accepted relation: the four entries that \<open>_filter_valid_relations\<close> writes into the
  dictionary of the relation, the only ones read afterwards.
\<close>

record rel_data =
  rd_subject :: string
  rd_predicate :: string
  rd_object :: string
  rd_context :: string

text \<open>
  The body of the loop of \<open>_filter_valid_relations\<close>. \<open>Inr None\<close> is a relation that is not
  accepted; an error is an exception, which the loop catches.
\<close>

definition check_relation :: "string list \<Rightarrow> json \<Rightarrow> py_error + rel_data option" where
  "check_relation ents relation =
    (case relation of
       JObj d \<Rightarrow>
        (case get_stripped d ''subject'' of Inl e \<Rightarrow> Inl e | Inr subj \<Rightarrow>
         case get_stripped d ''predicate'' of Inl e \<Rightarrow> Inl e | Inr pred \<Rightarrow>
         case get_stripped d ''object'' of Inl e \<Rightarrow> Inl e | Inr obj \<Rightarrow>
         case get_stripped d ''context'' of Inl e \<Rightarrow> Inl e | Inr ctx \<Rightarrow>
           if \<not> (subj \<noteq> [] \<and> pred \<noteq> [] \<and> obj \<noteq> []) then Inr None
           else
             let subject_valid = list_ex (fuzzy_match subj) ents;
                 object_valid = list_ex (fuzzy_match obj) ents;
                 predicate_valid = (str_lower pred \<in> set (map str_lower schema_keys))
             in if subject_valid \<and> object_valid \<and> predicate_valid
                then
                  let subject_exact = (case find (fuzzy_match subj) ents of Some e \<Rightarrow> e | None \<Rightarrow> subj);
                      object_exact = (case find (fuzzy_match obj) ents of Some e \<Rightarrow> e | None \<Rightarrow> obj);
                      predicate_exact =
                        (case find (same_predicate pred) schema_keys of Some k \<Rightarrow> k | None \<Rightarrow> pred)
                  in Inr (Some \<lparr>rd_subject = subject_exact, rd_predicate = predicate_exact,
                                rd_object = object_exact,
                                rd_context = (if ctx \<noteq> [] then ctx else ''Extracted from text'')\<rparr>)
                else Inr None)
     | _ \<Rightarrow> Inl AttributeError)"

fun filter_loop :: "string list \<Rightarrow> json list \<Rightarrow> rel_data list" where
  "filter_loop ents [] = []"
| "filter_loop ents (relation # relations) =
     (case check_relation ents relation of
        Inr (Some r) \<Rightarrow> r # filter_loop ents relations
      | _ \<Rightarrow> filter_loop ents relations)"

definition filter_valid_relations :: "json \<Rightarrow> string list \<Rightarrow> py_error + rel_data list" where
  "filter_valid_relations relations ents =
    (case py_iter relations of Inl e \<Rightarrow> Inl e | Inr rs \<Rightarrow> Inr (filter_loop ents rs))"

definition to_relation :: "TextChunk \<Rightarrow> rel_data \<Rightarrow> Relation" where
  "to_relation chunk rd =
    \<lparr>subject = rd_subject rd, predicate = rd_predicate rd, object = rd_object rd,
     chunk_id = tc_chunk_id chunk, rel_confidence = 1, rel_context = rd_context rd\<rparr>"

text \<open>
  \<open>chat\<close> is given what the prompt is built from: the first 1500 characters of the chunk
  and the entities. An exception in the \<open>try\<close> block leaves the list of relations empty.
\<close>

definition extract_relations_from_chunk ::
  "(string \<Rightarrow> string list \<Rightarrow> json option) \<Rightarrow> TextChunk \<Rightarrow> string list \<Rightarrow> Relation list" where
  "extract_relations_from_chunk chat chunk entities_in_chunk =
    (if length entities_in_chunk < 2 then []
     else
       case chat (take 1500 (content chunk)) entities_in_chunk of
         None \<Rightarrow> []
       | Some raw_relations \<Rightarrow>
          (case filter_valid_relations raw_relations entities_in_chunk of
             Inl e \<Rightarrow> []
           | Inr valid_relations \<Rightarrow> map (to_relation chunk) valid_relations))"

section \<open>The entity normalizer\<close>

record EntityCandidate =
  ec_text :: string
  ec_label :: string
  start_char :: int
  end_char :: int
  ec_chunk_id :: string
  source :: string
  ec_confidence :: real

record NormalizedEntity =
  canonical_name :: string
  entity_type :: json
  aliases :: "json list"
  frequency :: nat
  ne_confidence :: real
  source_chunks :: "string list"
  original_labels :: "string list"

subsection \<open>\<open>_group_similar_entities\<close>\<close>

text \<open>
  The lots \<open>xs[i:i + n]\<close> for \<open>i\<close> in \<open>range(0, len(xs), n)\<close>. The size is the default 20
  at the only call.
\<close>

function batches_of :: "nat \<Rightarrow> 'a list \<Rightarrow> 'a list list" where
  "batches_of n xs = (if xs = [] \<or> n = 0 then [] else take n xs # batches_of n (drop n xs))"
  by pat_completeness auto
termination
  by (relation "measure (\<lambda>(n, xs). length xs)") auto

declare batches_of.simps [simp del]

definition batch_size :: nat where
  "batch_size = 20"

definition group_similar_entities :: "EntityCandidate list \<Rightarrow> string list list" where
  "group_similar_entities ents =
    (let entity_counts = foldl (\<lambda>d e. count_up (str_strip (ec_text e)) d) [] ents;
         frequent_entities =
           map fst (filter (\<lambda>tc. snd tc \<ge> 2 \<or> length (fst tc) > 3) entity_counts)
     in batches_of batch_size frequent_entities)"

subsection \<open>\<open>normalize_entities\<close>\<close>

text \<open>
  \<open>e.text.strip().lower() == alias.lower()\<close>. An alias that is no string has no
  \<open>lower\<close>: the comparison raises, and it is made once for every candidate.
\<close>

definition is_str :: "json \<Rightarrow> bool" where
  "is_str v = (case v of JStr s \<Rightarrow> True | _ \<Rightarrow> False)"

definition matches :: "json \<Rightarrow> EntityCandidate \<Rightarrow> bool" where
  "matches alias e = (case alias of JStr a \<Rightarrow> str_lower (str_strip (ec_text e)) = str_lower a | _ \<Rightarrow> False)"

definition occurrences :: "json \<Rightarrow> EntityCandidate list \<Rightarrow> nat" where
  "occurrences alias ents = length (filter (matches alias) ents)"

text \<open>
  The body of the loop over the entities of one reply. \<open>Inr None\<close> is the \<open>continue\<close> on
  an empty name. \<open>list(set(...))\<close> is a list without repetition, in an order that Python
  does not fix.
\<close>

definition build_entity :: "EntityCandidate list \<Rightarrow> json \<Rightarrow> py_error + NormalizedEntity option" where
  "build_entity ents norm_entity =
    (case norm_entity of
       JObj d \<Rightarrow>
        (case get_stripped d ''canonical_name'' of
           Inl e \<Rightarrow> Inl e
         | Inr name \<Rightarrow>
            if name = [] then Inr None
            else
              let als = (case map_of d ''aliases'' of None \<Rightarrow> JArr [] | Some v \<Rightarrow> v);
                  ty = (case map_of d ''type'' of None \<Rightarrow> JStr ''OTHER'' | Some v \<Rightarrow> v)
              in case als of
                   JArr al \<Rightarrow>
                     let names = JStr name # al
                     in if ents \<noteq> [] \<and> \<not> list_all is_str names then Inl AttributeError
                        else
                          let total_freq = sum_list (map (\<lambda>alias. occurrences alias ents) names);
                              found = filter (\<lambda>e. list_ex (\<lambda>alias. matches alias e) names) ents
                          in Inr (Some \<lparr>canonical_name = name, entity_type = ty, aliases = al,
                                        frequency = total_freq, ne_confidence = 1,
                                        source_chunks = remdups (map ec_chunk_id found),
                                        original_labels = remdups (map ec_label found)\<rparr>)
                 | _ \<Rightarrow> Inl TypeError)
     | _ \<Rightarrow> Inl AttributeError)"

text \<open>The inner \<open>try\<close>: an entity that raises is skipped, the others are stored under their name.\<close>

definition store_entity ::
  "EntityCandidate list \<Rightarrow> (string \<times> NormalizedEntity) list \<Rightarrow> json
    \<Rightarrow> (string \<times> NormalizedEntity) list" where
  "store_entity ents all_normalized norm_entity =
    (case build_entity ents norm_entity of
       Inr (Some ne) \<Rightarrow> AList.update (canonical_name ne) ne all_normalized
     | _ \<Rightarrow> all_normalized)"

text \<open>The outer \<open>try\<close>: a lot whose reply is missing or not iterable is skipped.\<close>

definition process_batch ::
  "(string list \<Rightarrow> json option) \<Rightarrow> EntityCandidate list \<Rightarrow> (string \<times> NormalizedEntity) list
    \<Rightarrow> string list \<Rightarrow> (string \<times> NormalizedEntity) list" where
  "process_batch chat ents all_normalized batch =
    (case chat batch of
       None \<Rightarrow> all_normalized
     | Some normalized_batch \<Rightarrow>
        (case py_iter normalized_batch of
           Inl e \<Rightarrow> all_normalized
         | Inr recs \<Rightarrow> foldl (store_entity ents) all_normalized recs))"

definition normalize_entities ::
  "(string list \<Rightarrow> json option) \<Rightarrow> EntityCandidate list \<Rightarrow> (string \<times> NormalizedEntity) list" where
  "normalize_entities chat ents =
    foldl (process_batch chat ents) [] (group_similar_entities ents)"

section \<open>Notions used in the proofs\<close>

subsection \<open>The triples of the schema\<close>

text \<open>Adding a list of triples, one after the other.\<close>

definition add_all :: "triple list \<Rightarrow> triple list \<Rightarrow> triple list" where
  "add_all ts g = foldl (\<lambda>g t. graph_add t g) g ts"

definition class_triples :: "string \<times> string \<Rightarrow> triple list" where
  "class_triples cd =
    (let class_uri = ONTO (str_lower (fst cd))
     in [(class_uri, RDF_type, OWL ''Class''),
         (class_uri, RDFS ''label'', Literal (PyStr (fst cd)) None),
         (class_uri, RDFS ''comment'', Literal (PyStr (snd cd)) None),
         (class_uri, RDFS ''subClassOf'', ONTO ''Entity'')])"

definition property_triples :: "string \<times> string \<Rightarrow> triple list" where
  "property_triples pd =
    (let prop_uri = create_relation_uri (fst pd)
     in [(prop_uri, RDF_type, OWL ''ObjectProperty''),
         (prop_uri, RDFS ''label'', Literal (PyStr (underscores_to_spaces (fst pd))) None),
         (prop_uri, RDFS ''comment'', Literal (PyStr (snd pd)) None)])"

definition schema_triples :: "triple list" where
  "schema_triples =
    [(ONTO ''Entity'', RDF_type, OWL ''Class''),
     (ONTO ''Entity'', RDFS ''label'', Literal (PyStr ''Machine Learning Entity'') None)]
    @ concat (map class_triples main_classes)
    @ concat (map property_triples main_properties)"

subsection \<open>The triples of one relation\<close>

definition relation_node :: "nat \<Rightarrow> node" where
  "relation_node n = ENTITY (''rel_'' @ str_of_nat n)"

definition relation_triples :: "builder \<Rightarrow> Relation \<Rightarrow> triple list" where
  "relation_triples b r =
    (let s = create_entity_uri (subject r);
         ob = create_entity_uri (object r);
         p = create_relation_uri (predicate r);
         n = relation_node (relations_added b)
     in [(s, p, ob),
         (n, RDF_type, ONTO ''Relation''),
         (n, ONTO ''subject'', s),
         (n, ONTO ''predicate'', p),
         (n, ONTO ''object'', ob),
         (n, ONTO ''context'', Literal (PyStr (rel_context r)) None),
         (n, ONTO ''sourceChunk'', Literal (PyStr (chunk_id r)) None),
         (n, ONTO ''confidence'', Literal (PyFloat (rel_confidence r)) (Some (XSD ''float'')))])"

text \<open>The number that a string of decimal digits writes.\<close>

definition nat_of_str :: "string \<Rightarrow> nat" where
  "nat_of_str s = foldl (\<lambda>a c. 10 * a + (code c - 48)) 0 s"

subsection \<open>The entities that a reply yields\<close>

text \<open>The records of the reply to one lot, empty when the lot is skipped.\<close>

definition batch_records :: "(string list \<Rightarrow> json option) \<Rightarrow> string list \<Rightarrow> json list" where
  "batch_records chat batch =
    (case chat batch of
       None \<Rightarrow> []
     | Some v \<Rightarrow> (case py_iter v of Inl e \<Rightarrow> [] | Inr recs \<Rightarrow> recs))"

text \<open>The entities built from a list of records, in their order.\<close>

definition built :: "EntityCandidate list \<Rightarrow> json list \<Rightarrow> NormalizedEntity list" where
  "built ents recs =
    List.map_filter (\<lambda>r. case build_entity ents r of Inr (Some ne) \<Rightarrow> Some ne | _ \<Rightarrow> None) recs"

definition batch_entities ::
  "(string list \<Rightarrow> json option) \<Rightarrow> EntityCandidate list \<Rightarrow> string list \<Rightarrow> NormalizedEntity list" where
  "batch_entities chat ents batch = built ents (batch_records chat batch)"

text \<open>Storing a list of entities under their names, one after the other.\<close>

definition store_all ::
  "(string \<times> NormalizedEntity) list \<Rightarrow> NormalizedEntity list \<Rightarrow> (string \<times> NormalizedEntity) list" where
  "store_all al nes = foldl (\<lambda>al ne. AList.update (canonical_name ne) ne al) al nes"

subsection \<open>Candidates that pass the checks\<close>

text \<open>
  A candidate relation passes when its subject and its object each match some entity of
  the chunk, in lower case and by containment in either direction, and its predicate is,
  in lower case, a name of the schema.
\<close>

definition passes_checks :: "string list \<Rightarrow> json \<Rightarrow> bool" where
  "passes_checks ents rel =
    (case rel of
       JObj d \<Rightarrow>
        (case (get_stripped d ''subject'', get_stripped d ''predicate'', get_stripped d ''object'') of
           (Inr s, Inr p, Inr ob) \<Rightarrow>
             list_ex (fuzzy_match s) ents \<and> list_ex (fuzzy_match ob) ents
             \<and> list_ex (\<lambda>k. str_lower k = str_lower p) schema_keys
         | _ \<Rightarrow> False)
     | _ \<Rightarrow> False)"

subsection \<open>Plain names\<close>

text \<open>An ASCII letter, an ASCII digit or a white space character.\<close>

definition alnum_or_space :: "char \<Rightarrow> bool" where
  "alnum_or_space c = (is_ascii_upper c \<or> is_ascii_lower c \<or> is_ascii_digit c \<or> isspace c)"

subsection \<open>Groups of a pattern\<close>

text \<open>The least number of groups that a match of a pattern closes.\<close>

fun min_groups :: "regex \<Rightarrow> nat" where
  "min_groups (Group r) = Suc (min_groups r)"
| "min_groups (Seq rs) = sum_list (map min_groups rs)"
| "min_groups (Alt rs) = (if rs = [] then 0 else min_list (map min_groups rs))"
| "min_groups r = 0"

section \<open>Scenarios\<close>

text \<open>A builder that holds two entities, and a relation between them.\<close>

definition two_entity_builder :: builder where
  "two_entity_builder =
    \<lparr>graph = [(ENTITY ''neural_network'', RDF_type, ONTO ''algorithm''),
              (ENTITY ''gradient_descent'', RDF_type, ONTO ''algorithm'')],
     entities_added = 2, relations_added = 0, entity_types = [(''ALGORITHM'', 2)],
     relation_types = []\<rparr>"

definition uses_relation :: Relation where
  "uses_relation =
    \<lparr>subject = ''Neural Network'', predicate = ''uses'', object = ''Gradient Descent'',
     chunk_id = ''chunk_1'', rel_confidence = 1,
     rel_context = ''Neural networks are trained using gradient descent''\<rparr>"

text \<open>
  One candidate, and a reply that names an entity under a spelling that is the text of
  no candidate and lists no alias.
\<close>

definition svms_candidate :: EntityCandidate where
  "svms_candidate =
    \<lparr>ec_text = ''SVMs'', ec_label = ''ORG'', start_char = 0, end_char = 4,
     ec_chunk_id = ''chunk_1'', source = ''custom_pattern'', ec_confidence = 1\<rparr>"

definition svm_reply :: json where
  "svm_reply =
    JArr [JObj [(''canonical_name'', JStr ''Support Vector Machine''),
                (''type'', JStr ''ALGORITHM''),
                (''aliases'', JArr [])]]"

definition svm_chat :: "string list \<Rightarrow> json option" where
  "svm_chat batch = Some svm_reply"

text \<open>Three candidates, and a reply that lists two of their spellings as aliases.\<close>

definition svm_candidates :: "EntityCandidate list" where
  "svm_candidates =
    [svms_candidate,
     svms_candidate\<lparr>ec_text := ''SVM'', start_char := 10, end_char := 13\<rparr>,
     svms_candidate\<lparr>ec_text := '' svm '', ec_chunk_id := ''chunk_2''\<rparr>]"

definition svm_alias_reply :: json where
  "svm_alias_reply =
    JArr [JObj [(''canonical_name'', JStr ''Support Vector Machine''),
                (''type'', JStr ''ALGORITHM''),
                (''aliases'', JArr [JStr ''SVM'', JStr ''SVMs''])]]"

definition svm_alias_chat :: "string list \<Rightarrow> json option" where
  "svm_alias_chat batch = Some svm_alias_reply"

text \<open>
  Twenty-one candidates with different texts, which make two lots, and a model that names
  the entity Gradient Descent in its reply to either lot, with different aliases.
\<close>

definition numbered_candidate :: "nat \<Rightarrow> EntityCandidate" where
  "numbered_candidate n =
    \<lparr>ec_text = ''term '' @ str_of_nat n, ec_label = ''ORG'', start_char = 0, end_char = 6,
     ec_chunk_id = ''chunk_1'', source = ''custom_pattern'', ec_confidence = 1\<rparr>"

definition many_candidates :: "EntityCandidate list" where
  "many_candidates = map numbered_candidate [0..<21]"

definition first_record :: json where
  "first_record =
    JObj [(''canonical_name'', JStr ''Gradient Descent''), (''type'', JStr ''ALGORITHM''),
          (''aliases'', JArr [JStr ''GD''])]"

definition second_record :: json where
  "second_record =
    JObj [(''canonical_name'', JStr ''Gradient Descent''), (''type'', JStr ''CONCEPT''),
          (''aliases'', JArr [JStr ''SGD''])]"

definition two_lot_chat :: "string list \<Rightarrow> json option" where
  "two_lot_chat batch =
    (if ''term 0'' \<in> set batch then Some (JArr [first_record]) else Some (JArr [second_record]))"

text \<open>
  A chunk with two entities, and a reply with three candidate relations: one that passes
  under other spellings, one whose subject is no entity of the chunk, one whose predicate
  is not in the schema.
\<close>

definition network_chunk :: TextChunk where
  "network_chunk =
    \<lparr>tc_chunk_id = ''chunk_7'', content = ''Neural networks are trained using gradient descent.'',
     source_book = ''book'', chunk_number = 7, word_count = 7\<rparr>"

definition network_entities :: "string list" where
  "network_entities = [''Neural Network'', ''Gradient Descent'']"

definition network_reply :: json where
  "network_reply =
    JArr [JObj [(''subject'', JStr ''neural networks''), (''predicate'', JStr ''USES''),
                (''object'', JStr '' gradient descent ''), (''context'', JStr '''')],
          JObj [(''subject'', JStr ''Deep Belief Network''), (''predicate'', JStr ''uses''),
                (''object'', JStr ''Neural Network''), (''context'', JStr ''c'')],
          JObj [(''subject'', JStr ''Neural Network''), (''predicate'', JStr ''trains_with''),
                (''object'', JStr ''Gradient Descent''), (''context'', JStr ''c'')]]"

definition network_chat :: "string \<Rightarrow> string list \<Rightarrow> json option" where
  "network_chat chunk_text ents = Some network_reply"

section \<open>Lists\<close>

lemma find_append:
  "find P (xs @ ys) = (case find P xs of None \<Rightarrow> find P ys | Some x \<Rightarrow> Some x)"
  by (induction xs) simp_all

lemma find_SomeD: "find P xs = Some x \<Longrightarrow> x \<in> set xs \<and> P x"
  by (auto simp: find_Some_iff)

lemma find_list_ex:
  "list_ex P xs \<Longrightarrow> \<exists>x. find P xs = Some x \<and> x \<in> set xs \<and> P x"
  by (induction xs) (auto split: if_splits)

section \<open>Words of a string\<close>

lemma split_from_empty_iff:
  "split_from s cur = [] \<longleftrightarrow> cur = [] \<and> (\<forall>c \<in> set s. isspace c)"
  by (induction s arbitrary: cur) auto

lemma last_split_from:
  assumes "split_from s cur \<noteq> []" and "s = [] \<or> \<not> isspace (last s)"
    and "\<forall>c \<in> set cur. \<not> isspace c"
  shows "\<exists>pre. cur @ s = pre @ last (split_from s cur)
      \<and> (pre = [] \<or> isspace (last pre))
      \<and> last (split_from s cur) \<noteq> []
      \<and> (\<forall>c \<in> set (last (split_from s cur)). \<not> isspace c)"
  using assms
proof (induction s arbitrary: cur)
  case Nil
  then show ?case by (cases "cur = []") auto
next
  case (Cons c cs)
  show ?case
  proof (cases "isspace c")
    case True
    with Cons.prems(2) have cs: "cs \<noteq> []" "\<not> isspace (last cs)"
      by (cases "cs = []", simp_all)+
    then have ne: "split_from cs [] \<noteq> []"
      by (metis last_in_set split_from_empty_iff)
    from Cons.IH [OF ne, of] cs obtain pre where
      pre: "[] @ cs = pre @ last (split_from cs [])" "pre = [] \<or> isspace (last pre)"
        "last (split_from cs []) \<noteq> []" "\<forall>c \<in> set (last (split_from cs [])). \<not> isspace c"
      by auto
    have l: "last (split_from (c # cs) cur) = last (split_from cs [])"
      using True ne by simp
    have "cur @ c # cs = (cur @ c # pre) @ last (split_from cs [])"
      using pre(1) by simp
    moreover have "isspace (last (cur @ c # pre))"
      using pre(2) True by (cases "pre = []") auto
    ultimately show ?thesis using pre(3,4) unfolding l by blast
  next
    case False
    have ne: "split_from cs (cur @ [c]) \<noteq> []"
      by (simp add: split_from_empty_iff)
    have "cs = [] \<or> \<not> isspace (last cs)"
      using Cons.prems(2) by (cases "cs = []") auto
    moreover have "\<forall>x \<in> set (cur @ [c]). \<not> isspace x"
      using Cons.prems(3) False by auto
    ultimately obtain pre where
      "(cur @ [c]) @ cs = pre @ last (split_from cs (cur @ [c]))" "pre = [] \<or> isspace (last pre)"
      "last (split_from cs (cur @ [c])) \<noteq> []"
      "\<forall>x \<in> set (last (split_from cs (cur @ [c]))). \<not> isspace x"
      using Cons.IH [OF ne] by blast
    then show ?thesis using False by auto
  qed
qed

lemma strip_chars_last: "strip_chars P s = [] \<or> \<not> P (last (strip_chars P s))"
proof (cases "dropWhile P (rev (dropWhile P s)) = []")
  case True
  then show ?thesis by (simp add: strip_chars_def)
next
  case False
  then have "\<not> P (hd (dropWhile P (rev (dropWhile P s))))" by (rule hd_dropWhile)
  with False show ?thesis by (simp add: strip_chars_def last_rev)
qed

section \<open>The schema is added once\<close>

lemma set_graph_add: "set (graph_add t g) = insert t (set g)"
  by (auto simp: graph_add_def)

lemma graph_add_present: "t \<in> set g \<Longrightarrow> graph_add t g = g"
  by (simp add: graph_add_def)

lemma distinct_graph_add: "distinct g \<Longrightarrow> distinct (graph_add t g)"
  by (simp add: graph_add_def)

lemma add_all_Nil: "add_all [] g = g"
  by (simp add: add_all_def)

lemma add_all_Cons: "add_all (t # ts) g = add_all ts (graph_add t g)"
  by (simp add: add_all_def)

lemma add_all_append: "add_all (ts @ us) g = add_all us (add_all ts g)"
  by (simp add: add_all_def)

lemma set_add_all: "set (add_all ts g) = set ts \<union> set g"
  by (induction ts arbitrary: g) (auto simp: add_all_Nil add_all_Cons set_graph_add)

lemma add_all_present: "set ts \<subseteq> set g \<Longrightarrow> add_all ts g = g"
  by (induction ts arbitrary: g) (auto simp: add_all_Nil add_all_Cons graph_add_present)

lemma distinct_add_all: "distinct g \<Longrightarrow> distinct (add_all ts g)"
  by (induction ts arbitrary: g) (auto simp: add_all_Nil add_all_Cons distinct_graph_add)

lemma add_all_twice: "add_all ts (add_all ts g) = add_all ts g"
  by (rule add_all_present) (simp add: set_add_all)

lemma add_class_add_all: "add_class g cd = add_all (class_triples cd) g"
  by (simp add: add_class_def class_triples_def Let_def add_all_def)

lemma add_property_add_all: "add_property g pd = add_all (property_triples pd) g"
  by (simp add: add_property_def property_triples_def Let_def add_all_def)

lemma foldl_add_class: "foldl add_class g cs = add_all (concat (map class_triples cs)) g"
  by (induction cs arbitrary: g) (simp_all add: add_all_Nil add_all_append add_class_add_all)

lemma foldl_add_property: "foldl add_property g ps = add_all (concat (map property_triples ps)) g"
  by (induction ps arbitrary: g) (simp_all add: add_all_Nil add_all_append add_property_add_all)

lemma graph_add_ontology_schema:
  "graph (add_ontology_schema b) = add_all schema_triples (graph b)"
  by (simp add: add_ontology_schema_def Let_def schema_triples_def foldl_add_class
      foldl_add_property add_all_append add_all_Cons add_all_Nil)

lemma add_ontology_schema_add_all:
  "add_ontology_schema b = b\<lparr>graph := add_all schema_triples (graph b)\<rparr>"
  using graph_add_ontology_schema [of b] by (simp add: add_ontology_schema_def Let_def)

text \<open>
  C6. \<open>add_ontology_schema\<close> is idempotent: on every builder, the second call leaves the
  graph, and the rest of the builder, as the first call made them. On a new builder the
  graph after two calls holds no triple twice.
\<close>

theorem add_ontology_schema_idempotent:
  "add_ontology_schema (add_ontology_schema b) = add_ontology_schema b
   \<and> set (graph (add_ontology_schema (add_ontology_schema b))) = set (graph (add_ontology_schema b))
   \<and> distinct (graph (add_ontology_schema (add_ontology_schema new_builder)))"
proof (intro conjI)
  show twice: "add_ontology_schema (add_ontology_schema b) = add_ontology_schema b"
    by (simp add: add_ontology_schema_add_all add_all_twice)
  show "set (graph (add_ontology_schema (add_ontology_schema b))) = set (graph (add_ontology_schema b))"
    by (simp add: twice)
  show "distinct (graph (add_ontology_schema (add_ontology_schema new_builder)))"
    by (simp add: graph_add_ontology_schema distinct_add_all new_builder_def)
qed

section \<open>Relation nodes in the entity namespace\<close>

lemma code_digit_char: "d < 10 \<Longrightarrow> code (digit_char d) = 48 + d"
  by (simp add: code_def digit_char_def)

lemma nat_of_str_snoc: "nat_of_str (s @ [c]) = 10 * nat_of_str s + (code c - 48)"
  by (simp add: nat_of_str_def)

lemma nat_of_str_of_nat: "nat_of_str (str_of_nat n) = n"
proof (induction n rule: str_of_nat.induct)
  case (1 n)
  show ?case
  proof (cases "n < 10")
    case True
    then have "str_of_nat n = [digit_char n]" by (subst str_of_nat.simps) simp
    then show ?thesis using True by (simp add: nat_of_str_def code_digit_char)
  next
    case False
    then have eq: "str_of_nat n = str_of_nat (n div 10) @ [digit_char (n mod 10)]"
      by (subst str_of_nat.simps) simp
    have "nat_of_str (str_of_nat n) = 10 * (n div 10) + n mod 10"
      using 1 [OF False] by (simp add: eq nat_of_str_snoc code_digit_char)
    then show ?thesis by simp
  qed
qed

lemma str_of_nat_inj: "str_of_nat m = str_of_nat n \<Longrightarrow> m = n"
  by (metis nat_of_str_of_nat)

lemma relation_node_inj: "relation_node m = relation_node n \<Longrightarrow> m = n"
  by (simp add: relation_node_def ENTITY_def str_of_nat_inj)

lemma in_entity_namespace_relation_node: "in_entity_namespace (relation_node n)"
  by (simp add: in_entity_namespace_def relation_node_def ENTITY_def)

lemma fst_add_relation_property:
  "fst (add_relation_property p g) = create_relation_uri p"
  by (simp add: add_relation_property_def Let_def)

lemma snd_add_relation_property_subset:
  "set g \<subseteq> set (snd (add_relation_property p g))"
  by (simp add: add_relation_property_def Let_def set_graph_add subset_insertI2)

lemma graph_add_relation:
  "graph (add_relation b r) =
     add_all (relation_triples b r) (snd (add_relation_property (predicate r) (graph b)))"
  by (simp add: add_relation_def relation_triples_def relation_node_def Let_def add_all_def
      fst_add_relation_property)

lemma add_relation_grows: "set (graph b) \<subseteq> set (graph (add_relation b r))"
  using snd_add_relation_property_subset [of "graph b" "predicate r"]
  by (simp add: graph_add_relation set_add_all le_supI2)

lemma add_relation_counter: "relations_added (add_relation b r) = relations_added b + 1"
  by (simp add: add_relation_def Let_def)

lemma add_relation_node:
  "(relation_node (relations_added b), RDF_type, ONTO ''Relation'') \<in> set (graph (add_relation b r))"
  by (simp add: graph_add_relation set_add_all relation_triples_def Let_def)

lemma add_relations_Cons: "add_relations b (r # rs) = add_relations (add_relation b r) rs"
  by (simp add: add_relations_def)

lemma add_relations_grows: "set (graph b) \<subseteq> set (graph (add_relations b rs))"
proof (induction rs arbitrary: b)
  case Nil
  show ?case by (simp add: add_relations_def)
next
  case (Cons r rs)
  have "set (graph b) \<subseteq> set (graph (add_relation b r))" by (rule add_relation_grows)
  also have "\<dots> \<subseteq> set (graph (add_relations (add_relation b r) rs))" by (rule Cons.IH)
  finally show ?case by (simp only: add_relations_Cons)
qed

lemma add_relations_nodes:
  "i < length rs \<Longrightarrow>
   (relation_node (relations_added b + i), RDF_type, ONTO ''Relation'')
     \<in> set (graph (add_relations b rs))"
proof (induction rs arbitrary: b i)
  case Nil
  then show ?case by simp
next
  case (Cons r rs)
  show ?case
  proof (cases i)
    case 0
    have "(relation_node (relations_added b), RDF_type, ONTO ''Relation'')
            \<in> set (graph (add_relation b r))"
      by (rule add_relation_node)
    then have "(relation_node (relations_added b), RDF_type, ONTO ''Relation'')
            \<in> set (graph (add_relations (add_relation b r) rs))"
      using add_relations_grows [of "add_relation b r" rs] by blast
    then show ?thesis by (simp only: add_relations_Cons 0 add_0_right)
  next
    case (Suc j)
    then have "j < length rs" using Cons.prems by simp
    from Cons.IH [OF this, of "add_relation b r"]
    have "(relation_node (relations_added b + 1 + j), RDF_type, ONTO ''Relation'')
            \<in> set (graph (add_relations (add_relation b r) rs))"
      by (simp only: add_relation_counter)
    then show ?thesis by (simp add: add_relations_Cons Suc)
  qed
qed

lemma set_entity_subjects:
  "set (entity_subjects g) = {n \<in> fst ` set g. in_entity_namespace n}"
  by (auto simp: entity_subjects_def)

text \<open>
  C8. The relation of index \<open>i\<close> of a call of \<open>add_relations\<close> gets the node
  \<open>entity:rel_n\<close>, in the entity namespace, \<open>n\<close> being the counter of relations at the call
  plus \<open>i\<close>. The node is a subject of the graph, so \<open>get_stats\<close> counts it in
  \<open>total_entities\<close>, which is at least the number of relations of the call.
\<close>

theorem reification_nodes_are_counted:
  assumes "i < length relations"
  shows "(ENTITY (''rel_'' @ str_of_nat (relations_added b + i)), RDF_type, ONTO ''Relation'')
           \<in> set (graph (add_relations b relations))
       \<and> ENTITY (''rel_'' @ str_of_nat (relations_added b + i))
           \<in> set (entity_subjects (graph (add_relations b relations)))
       \<and> (\<exists>st. get_stats (graph (add_relations b relations)) = Inr st
             \<and> total_entities st = length (entity_subjects (graph (add_relations b relations)))
             \<and> length relations \<le> total_entities st)"
proof -
  let ?g = "graph (add_relations b relations)"
  let ?node = "\<lambda>k. relation_node (relations_added b + k)"
  have triple: "(?node k, RDF_type, ONTO ''Relation'') \<in> set ?g" if "k < length relations" for k
    using that by (rule add_relations_nodes)
  have subj: "?node k \<in> set (entity_subjects ?g)" if "k < length relations" for k
  proof -
    have "?node k \<in> fst ` set ?g" using triple [OF that] by force
    then show ?thesis by (simp add: set_entity_subjects in_entity_namespace_relation_node)
  qed
  have inj: "inj_on ?node {..<length relations}"
  proof (rule inj_onI)
    fix x y assume "?node x = ?node y"
    then have "relations_added b + x = relations_added b + y" by (rule relation_node_inj)
    then show "x = y" by simp
  qed
  have "?node ` {..<length relations} \<subseteq> set (entity_subjects ?g)"
    using subj by auto
  then have "card (?node ` {..<length relations}) \<le> card (set (entity_subjects ?g))"
    by (intro card_mono) auto
  moreover have "card (?node ` {..<length relations}) = length relations"
    using inj by (simp add: card_image)
  moreover have "card (set (entity_subjects ?g)) = length (entity_subjects ?g)"
    by (simp add: entity_subjects_def length_remdups_card_conv)
  ultimately have bound: "length relations \<le> length (entity_subjects ?g)"
    by simp
  with assms have "length (entity_subjects ?g) \<noteq> 0" by auto
  then have "get_stats ?g = Inr \<lparr>total_triples = length ?g,
      total_entities = length (entity_subjects ?g), total_relations = 0\<rparr>"
    by (simp add: get_stats_def Let_def)
  with bound triple [OF assms] subj [OF assms] show ?thesis
    by (simp add: relation_node_def)
qed

theorem reification_nodes_are_counted_witness:
  "0 < length [uses_relation]
   \<and> ENTITY ''rel_0'' \<in> set (entity_subjects (graph (add_relations two_entity_builder [uses_relation])))
   \<and> entities_added two_entity_builder = 2
   \<and> get_stats (graph (add_relations two_entity_builder [uses_relation])) =
       Inr \<lparr>total_triples = 12, total_entities = 3, total_relations = 0\<rparr>"
proof -
  have h: "0 < length [uses_relation]" by simp
  have n: "''rel_'' @ str_of_nat (relations_added two_entity_builder + 0) = ''rel_0''"
    by code_simp
  have e: "entities_added two_entity_builder = 2"
    by (simp add: two_entity_builder_def)
  have s: "get_stats (graph (add_relations two_entity_builder [uses_relation])) =
       Inr \<lparr>total_triples = 12, total_entities = 3, total_relations = 0\<rparr>"
    by code_simp
  from reification_nodes_are_counted [OF h, of two_entity_builder] n e s show ?thesis
    by simp
qed

section \<open>The normalized entities\<close>

lemma store_all_Nil: "store_all al [] = al"
  by (simp add: store_all_def)

lemma store_all_Cons:
  "store_all al (ne # nes) = store_all (AList.update (canonical_name ne) ne al) nes"
  by (simp add: store_all_def)

lemma store_all_append: "store_all al (xs @ ys) = store_all (store_all al xs) ys"
  by (simp add: store_all_def)

lemma store_all_snoc:
  "store_all al (nes @ [ne]) = AList.update (canonical_name ne) ne (store_all al nes)"
  by (simp add: store_all_def)

lemma built_Nil: "built ents [] = []"
  by (simp add: built_def)

lemma built_Cons:
  "built ents (r # rs) =
    (case build_entity ents r of Inr (Some ne) \<Rightarrow> ne # built ents rs | _ \<Rightarrow> built ents rs)"
  by (simp add: built_def split: sum.splits option.splits)

lemma built_append: "built ents (xs @ ys) = built ents xs @ built ents ys"
  by (simp add: built_def map_filter_def)

lemma foldl_store_entity:
  "foldl (store_entity ents) al recs = store_all al (built ents recs)"
proof (induction recs arbitrary: al)
  case Nil
  show ?case by (simp add: built_Nil store_all_Nil)
next
  case (Cons r rs)
  have "foldl (store_entity ents) al (r # rs) = store_all (store_entity ents al r) (built ents rs)"
    by (simp add: Cons.IH)
  also have "\<dots> = store_all al (built ents (r # rs))"
    by (simp add: built_Cons store_entity_def store_all_Cons split: sum.splits option.splits)
  finally show ?case .
qed

lemma process_batch_store_all:
  "process_batch chat ents al batch = store_all al (batch_entities chat ents batch)"
  by (simp add: process_batch_def batch_entities_def batch_records_def foldl_store_entity
      built_Nil store_all_Nil split: option.splits sum.splits)

lemma foldl_process_batch:
  "foldl (process_batch chat ents) al bs =
     store_all al (concat (map (batch_entities chat ents) bs))"
  by (induction bs arbitrary: al) (simp_all add: store_all_Nil store_all_append process_batch_store_all)

lemma normalize_entities_store_all:
  "normalize_entities chat ents =
     store_all [] (concat (map (batch_entities chat ents) (group_similar_entities ents)))"
  by (simp add: normalize_entities_def foldl_process_batch)

lemma map_of_store_all:
  "map_of (store_all al nes) k =
    (case find (\<lambda>ne. canonical_name ne = k) (rev nes) of
       Some ne \<Rightarrow> Some ne | None \<Rightarrow> map_of al k)"
proof (induction nes rule: rev_induct)
  case Nil
  show ?case by (simp add: store_all_Nil)
next
  case (snoc ne nes)
  show ?case by (simp add: store_all_snoc update_conv' snoc.IH)
qed

lemma distinct_store_all:
  "distinct (map fst al) \<Longrightarrow> distinct (map fst (store_all al nes))"
  by (induction nes arbitrary: al) (simp_all add: store_all_Nil store_all_Cons distinct_update)

lemma set_update_subset: "set (AList.update k v al) \<subseteq> insert (k, v) (set al)"
  by (induction al) auto

lemma set_store_all:
  "(k, ne) \<in> set (store_all al nes) \<Longrightarrow>
     (k, ne) \<in> set al \<or> (ne \<in> set nes \<and> k = canonical_name ne)"
proof (induction nes arbitrary: al)
  case Nil
  then show ?case by (simp add: store_all_Nil)
next
  case (Cons x xs)
  from Cons.prems have "(k, ne) \<in> set (store_all (AList.update (canonical_name x) x al) xs)"
    by (simp add: store_all_Cons)
  from Cons.IH [OF this] show ?case
    using set_update_subset [of "canonical_name x" x al] by auto
qed

lemma one_entry:
  "distinct (map fst al) \<Longrightarrow> map_of al c = Some v \<Longrightarrow> length (filter (\<lambda>kv. fst kv = c) al) = 1"
proof (induction al)
  case Nil
  then show ?case by simp
next
  case (Cons a al)
  show ?case
  proof (cases "fst a = c")
    case True
    with Cons.prems have "c \<notin> fst ` set al" by auto
    then have "filter (\<lambda>kv. fst kv = c) al = []" by (auto simp: filter_empty_conv)
    with True show ?thesis by simp
  next
    case False
    with Cons show ?thesis by (cases a) auto
  qed
qed

lemma in_built:
  "ne \<in> set (built ents recs) \<longleftrightarrow> (\<exists>r \<in> set recs. build_entity ents r = Inr (Some ne))"
  by (induction recs) (auto simp: built_Nil built_Cons split: sum.splits option.splits)

lemma normalized_entry_built:
  assumes "(k, ne) \<in> set (normalize_entities chat ents)"
  shows "k = canonical_name ne \<and>
    (\<exists>batch \<in> set (group_similar_entities ents). \<exists>r \<in> set (batch_records chat batch).
        build_entity ents r = Inr (Some ne))"
proof -
  from assms have "(k, ne) \<in> set (store_all []
      (concat (map (batch_entities chat ents) (group_similar_entities ents))))"
    by (simp add: normalize_entities_store_all)
  from set_store_all [OF this]
  have "ne \<in> set (concat (map (batch_entities chat ents) (group_similar_entities ents)))"
    and k: "k = canonical_name ne" by auto
  then obtain batch where "batch \<in> set (group_similar_entities ents)"
    and "ne \<in> set (batch_entities chat ents batch)" by auto
  with k show ?thesis by (auto simp: batch_entities_def in_built)
qed

lemma build_entity_result:
  assumes "build_entity ents r = Inr (Some ne)"
  shows "ne_confidence ne = 1
    \<and> frequency ne = sum_list (map (\<lambda>a. occurrences a ents) (JStr (canonical_name ne) # aliases ne))
    \<and> canonical_name ne \<noteq> []"
  using assms
  by (auto simp: build_entity_def Let_def split: json.splits sum.splits if_splits)

lemma member_le_sum_list_nat: "(n :: nat) \<in> set ns \<Longrightarrow> n \<le> sum_list ns"
  by (induction ns) auto

lemma occurrences_le_frequency:
  assumes "build_entity ents r = Inr (Some ne)"
    and "a \<in> set (JStr (canonical_name ne) # aliases ne)"
  shows "occurrences a ents \<le> frequency ne"
proof -
  have "occurrences a ents \<in> set (map (\<lambda>a. occurrences a ents) (JStr (canonical_name ne) # aliases ne))"
    using assms(2) by (simp only: set_map) (rule imageI)
  then have "occurrences a ents \<le> sum_list (map (\<lambda>a. occurrences a ents) (JStr (canonical_name ne) # aliases ne))"
    by (rule member_le_sum_list_nat)
  with build_entity_result [OF assms(1)] show ?thesis by simp
qed

lemma sum_list_pos_iff: "1 \<le> sum_list (ns :: nat list) \<longleftrightarrow> (\<exists>n \<in> set ns. 1 \<le> n)"
  by (induction ns) auto

lemma occurrences_pos_iff: "1 \<le> occurrences a ents \<longleftrightarrow> (\<exists>e \<in> set ents. matches a e)"
proof -
  have "1 \<le> occurrences a ents \<longleftrightarrow> filter (matches a) ents \<noteq> []"
    by (cases "filter (matches a) ents") (simp_all add: occurrences_def)
  then show ?thesis by (auto simp: filter_empty_conv)
qed

text \<open>
  C3, as amended. The frequency of a normalized entity is the sum, over its canonical
  name and its aliases, of the candidates that the name matches (the trimmed text of the
  candidate and the name, both in lower case, are equal). It is at least the number of
  candidates that any one alias, or the canonical name, matches. It is at least 1 exactly
  when some candidate matches the canonical name or an alias.
\<close>

theorem frequency_counts_matches:
  assumes "(c, ne) \<in> set (normalize_entities chat ents)"
  shows "canonical_name ne = c
    \<and> frequency ne = sum_list (map (\<lambda>a. occurrences a ents) (JStr c # aliases ne))
    \<and> occurrences (JStr c) ents \<le> frequency ne
    \<and> (\<forall>a \<in> set (aliases ne). occurrences a ents \<le> frequency ne)
    \<and> (1 \<le> frequency ne \<longleftrightarrow> (\<exists>a \<in> set (JStr c # aliases ne). \<exists>e \<in> set ents. matches a e))"
proof -
  from normalized_entry_built [OF assms] obtain r where
    c: "c = canonical_name ne" and r: "build_entity ents r = Inr (Some ne)" by blast
  have freq: "frequency ne = sum_list (map (\<lambda>a. occurrences a ents) (JStr c # aliases ne))"
    using build_entity_result [OF r] c by simp
  have "1 \<le> frequency ne \<longleftrightarrow> (\<exists>a \<in> set (JStr c # aliases ne). 1 \<le> occurrences a ents)"
    unfolding freq sum_list_pos_iff by auto
  then have pos: "1 \<le> frequency ne \<longleftrightarrow> (\<exists>a \<in> set (JStr c # aliases ne). \<exists>e \<in> set ents. matches a e)"
    by (simp only: occurrences_pos_iff)
  have "occurrences a ents \<le> frequency ne" if "a \<in> set (JStr c # aliases ne)" for a
    using occurrences_le_frequency [OF r] that c by simp
  then have "occurrences (JStr c) ents \<le> frequency ne"
    and "\<forall>a \<in> set (aliases ne). occurrences a ents \<le> frequency ne" by simp_all
  with c freq pos show ?thesis by blast
qed

theorem frequency_counts_matches_witness:
  "map fst (normalize_entities svm_alias_chat svm_candidates) = [''Support Vector Machine'']
   \<and> concat (map (\<lambda>kv. aliases (snd kv)) (normalize_entities svm_alias_chat svm_candidates))
       = [JStr ''SVM'', JStr ''SVMs'']
   \<and> map (\<lambda>kv. frequency (snd kv)) (normalize_entities svm_alias_chat svm_candidates) = [3]
   \<and> occurrences (JStr ''Support Vector Machine'') svm_candidates \<le> 3
   \<and> occurrences (JStr ''SVM'') svm_candidates \<le> 3
   \<and> occurrences (JStr ''SVMs'') svm_candidates \<le> 3"
proof -
  let ?ne = "\<lparr>canonical_name = ''Support Vector Machine'', entity_type = JStr ''ALGORITHM'',
        aliases = [JStr ''SVM'', JStr ''SVMs''], frequency = 3, ne_confidence = 1,
        source_chunks = [''chunk_1'', ''chunk_2''], original_labels = [''ORG'']\<rparr>"
  have e: "normalize_entities svm_alias_chat svm_candidates = [(''Support Vector Machine'', ?ne)]"
    by code_simp
  then have "(''Support Vector Machine'', ?ne) \<in> set (normalize_entities svm_alias_chat svm_candidates)"
    by simp
  from frequency_counts_matches [OF this] e show ?thesis by simp
qed

theorem frequency_zero_counterexample:
  "normalize_entities svm_chat [svms_candidate] =
    [(''Support Vector Machine'',
      \<lparr>canonical_name = ''Support Vector Machine'', entity_type = JStr ''ALGORITHM'',
       aliases = [], frequency = 0, ne_confidence = 1, source_chunks = [],
       original_labels = []\<rparr>)]"
  by code_simp

text \<open>
  C5. When a record of the reply to a lot builds an entity, no later record of that reply
  and no later lot builds an entity of the same name, then the mapping holds this entity
  under the name, whatever the earlier lots stored there, and holds one entry under the
  name.
\<close>

theorem later_batch_overwrites:
  assumes j: "j < length (group_similar_entities ents)"
    and reply: "chat (group_similar_entities ents ! j) = Some reply"
    and recs: "py_iter reply = Inr (pre @ r # post)"
    and r: "build_entity ents r = Inr (Some ne)"
    and post: "\<forall>ne' \<in> set (built ents post). canonical_name ne' \<noteq> canonical_name ne"
    and later: "\<forall>k. j < k \<and> k < length (group_similar_entities ents) \<longrightarrow>
        (\<forall>ne' \<in> set (batch_entities chat ents (group_similar_entities ents ! k)).
            canonical_name ne' \<noteq> canonical_name ne)"
  shows "map_of (normalize_entities chat ents) (canonical_name ne) = Some ne
    \<and> length (filter (\<lambda>kv. fst kv = canonical_name ne) (normalize_entities chat ents)) = 1"
proof -
  let ?bs = "group_similar_entities ents"
  let ?be = "batch_entities chat ents"
  let ?P = "\<lambda>ne'. canonical_name ne' = canonical_name ne"
  define A where "A = concat (map ?be (take j ?bs)) @ built ents pre"
  define B where "B = built ents post @ concat (map ?be (drop (Suc j) ?bs))"
  have bs: "?bs = take j ?bs @ (?bs ! j) # drop (Suc j) ?bs"
    using j by (rule id_take_nth_drop)
  have bej: "?be (?bs ! j) = built ents pre @ ne # built ents post"
    by (simp add: batch_entities_def batch_records_def reply recs built_append built_Cons r)
  have "concat (map ?be ?bs) = concat (map ?be (take j ?bs @ (?bs ! j) # drop (Suc j) ?bs))"
    using bs by simp
  then have all: "concat (map ?be ?bs) = A @ ne # B"
    by (simp add: A_def B_def bej)
  have "\<forall>ne' \<in> set (concat (map ?be (drop (Suc j) ?bs))). \<not> ?P ne'"
  proof
    fix ne' assume "ne' \<in> set (concat (map ?be (drop (Suc j) ?bs)))"
    then obtain b where b: "b \<in> set (drop (Suc j) ?bs)" and ne': "ne' \<in> set (?be b)" by auto
    from b obtain m where m: "m < length (drop (Suc j) ?bs)" "b = drop (Suc j) ?bs ! m"
      by (auto simp: in_set_conv_nth)
    then have *: "b = ?bs ! (Suc j + m)" "Suc j + m < length ?bs" by auto
    have "j < Suc j + m" by simp
    with later * have "\<forall>ne' \<in> set (?be b). \<not> ?P ne'" by blast
    with ne' show "\<not> ?P ne'" by blast
  qed
  with post have "\<forall>ne' \<in> set B. \<not> ?P ne'" by (auto simp: B_def)
  then have "find ?P (rev B) = None" by (simp add: find_None_iff)
  then have found: "find ?P (rev (A @ ne # B)) = Some ne"
    by (simp add: find_append)
  have m: "map_of (normalize_entities chat ents) (canonical_name ne) = Some ne"
    by (simp add: normalize_entities_store_all all map_of_store_all found del: rev_append rev.simps)
  have "distinct (map fst (normalize_entities chat ents))"
    by (simp add: normalize_entities_store_all distinct_store_all)
  from one_entry [OF this m] m show ?thesis by simp
qed

theorem later_batch_overwrites_witness:
  "1 < length (group_similar_entities many_candidates)
   \<and> two_lot_chat (group_similar_entities many_candidates ! 0) = Some (JArr [first_record])
   \<and> two_lot_chat (group_similar_entities many_candidates ! 1) = Some (JArr [second_record])
   \<and> map canonical_name
        (batch_entities two_lot_chat many_candidates (group_similar_entities many_candidates ! 0))
      = [''Gradient Descent'']
   \<and> map_of (normalize_entities two_lot_chat many_candidates) ''Gradient Descent'' =
       Some \<lparr>canonical_name = ''Gradient Descent'', entity_type = JStr ''CONCEPT'',
             aliases = [JStr ''SGD''], frequency = 0, ne_confidence = 1,
             source_chunks = [], original_labels = []\<rparr>
   \<and> length (filter (\<lambda>kv. fst kv = ''Gradient Descent'')
               (normalize_entities two_lot_chat many_candidates)) = 1"
proof -
  let ?ne = "\<lparr>canonical_name = ''Gradient Descent'', entity_type = JStr ''CONCEPT'',
             aliases = [JStr ''SGD''], frequency = 0, ne_confidence = 1,
             source_chunks = [], original_labels = []\<rparr>"
  have len: "length (group_similar_entities many_candidates) = 2"
    by code_simp
  have j: "1 < length (group_similar_entities many_candidates)"
    by (simp add: len)
  have first: "two_lot_chat (group_similar_entities many_candidates ! 0) = Some (JArr [first_record])"
    by code_simp
  have reply: "two_lot_chat (group_similar_entities many_candidates ! 1) = Some (JArr [second_record])"
    by code_simp
  have recs: "py_iter (JArr [second_record]) = Inr ([] @ second_record # [])"
    by simp
  have r: "build_entity many_candidates second_record = Inr (Some ?ne)"
    by code_simp
  have post: "\<forall>ne' \<in> set (built many_candidates []). canonical_name ne' \<noteq> canonical_name ?ne"
    by (simp add: built_Nil)
  have later: "\<forall>k. 1 < k \<and> k < length (group_similar_entities many_candidates) \<longrightarrow>
        (\<forall>ne' \<in> set (batch_entities two_lot_chat many_candidates
                        (group_similar_entities many_candidates ! k)).
            canonical_name ne' \<noteq> canonical_name ?ne)"
    by (auto simp: len)
  have earlier: "map canonical_name
        (batch_entities two_lot_chat many_candidates (group_similar_entities many_candidates ! 0))
      = [''Gradient Descent'']"
    by code_simp
  from later_batch_overwrites [OF j reply recs r post later] j first reply earlier
  show ?thesis by simp
qed

section \<open>The extracted relations\<close>

lemma in_filter_loop:
  "rd \<in> set (filter_loop ents rs) \<Longrightarrow> \<exists>rel \<in> set rs. check_relation ents rel = Inr (Some rd)"
  by (induction rs) (auto split: sum.splits option.splits)

lemma predicate_valid_find:
  assumes "str_lower p \<in> set (map str_lower ks)"
  shows "\<exists>k. find (same_predicate p) ks = Some k \<and> k \<in> set ks \<and> str_lower k = str_lower p"
proof -
  from assms have "list_ex (same_predicate p) ks"
    by (auto simp: list_ex_iff same_predicate_def)
  from find_list_ex [OF this] show ?thesis by (auto simp: same_predicate_def)
qed

lemma check_relation_Some:
  assumes "check_relation ents rel = Inr (Some rd)"
  shows "\<exists>d s p ob. rel = JObj d
      \<and> get_stripped d ''subject'' = Inr s \<and> get_stripped d ''predicate'' = Inr p
      \<and> get_stripped d ''object'' = Inr ob
      \<and> find (fuzzy_match s) ents = Some (rd_subject rd)
      \<and> find (fuzzy_match ob) ents = Some (rd_object rd)
      \<and> find (same_predicate p) schema_keys = Some (rd_predicate rd)"
proof -
  from assms obtain d where rel: "rel = JObj d"
    by (cases rel) (simp_all add: check_relation_def)
  from assms rel obtain s where s: "get_stripped d ''subject'' = Inr s"
    by (cases "get_stripped d ''subject''") (simp_all add: check_relation_def)
  from assms rel s obtain p where p: "get_stripped d ''predicate'' = Inr p"
    by (cases "get_stripped d ''predicate''") (simp_all add: check_relation_def)
  from assms rel s p obtain ob where ob: "get_stripped d ''object'' = Inr ob"
    by (cases "get_stripped d ''object''") (simp_all add: check_relation_def)
  from assms rel s p ob obtain c where c: "get_stripped d ''context'' = Inr c"
    by (cases "get_stripped d ''context''") (simp_all add: check_relation_def)
  from assms have valid: "list_ex (fuzzy_match s) ents" "list_ex (fuzzy_match ob) ents"
      "str_lower p \<in> set (map str_lower schema_keys)"
    by (simp_all add: check_relation_def rel s p ob c Let_def split: if_splits)
  from find_list_ex [OF valid(1)] obtain es where es: "find (fuzzy_match s) ents = Some es" by blast
  from find_list_ex [OF valid(2)] obtain eo where eo: "find (fuzzy_match ob) ents = Some eo" by blast
  from predicate_valid_find [OF valid(3)] obtain k where k: "find (same_predicate p) schema_keys = Some k"
    by blast
  from assms have "rd_subject rd = es" "rd_object rd = eo" "rd_predicate rd = k"
    by (auto simp add: check_relation_def rel s p ob c Let_def es eo k split: if_splits)
  with rel s p ob es eo k show ?thesis by simp
qed

lemma check_relation_passes:
  assumes "check_relation ents rel = Inr (Some rd)"
  shows "passes_checks ents rel"
proof -
  from check_relation_Some [OF assms] obtain d s p ob where
    *: "rel = JObj d" "get_stripped d ''subject'' = Inr s" "get_stripped d ''predicate'' = Inr p"
      "get_stripped d ''object'' = Inr ob"
      "find (fuzzy_match s) ents = Some (rd_subject rd)"
      "find (fuzzy_match ob) ents = Some (rd_object rd)"
      "find (same_predicate p) schema_keys = Some (rd_predicate rd)"
    by blast
  have "list_ex (fuzzy_match s) ents"
    using *(5) by (auto simp: list_ex_iff find_Some_iff)
  moreover have "list_ex (fuzzy_match ob) ents"
    using *(6) by (auto simp: list_ex_iff find_Some_iff)
  moreover have "list_ex (\<lambda>k. str_lower k = str_lower p) schema_keys"
    using *(7) by (auto simp: list_ex_iff find_Some_iff same_predicate_def)
  ultimately show ?thesis by (simp add: passes_checks_def *)
qed

lemma length_filter_loop:
  "length (filter_loop ents rs) \<le> length (filter (passes_checks ents) rs)"
proof (induction rs)
  case Nil
  show ?case by simp
next
  case (Cons rel rs)
  show ?case
  proof (cases "\<exists>rd. check_relation ents rel = Inr (Some rd)")
    case True
    then obtain rd where rd: "check_relation ents rel = Inr (Some rd)" by blast
    from check_relation_passes [OF rd] rd Cons.IH show ?thesis by simp
  next
    case False
    then have "filter_loop ents (rel # rs) = filter_loop ents rs"
      by (auto split: sum.splits option.splits)
    with Cons.IH show ?thesis by (simp add: le_SucI)
  qed
qed

lemma extract_unfold:
  assumes "r \<in> set (extract_relations_from_chunk chat chunk ents)"
  shows "\<exists>raw recs. chat (take 1500 (content chunk)) ents = Some raw \<and> py_iter raw = Inr recs
      \<and> extract_relations_from_chunk chat chunk ents = map (to_relation chunk) (filter_loop ents recs)"
proof -
  from assms have long: "\<not> length ents < 2"
    by (auto simp: extract_relations_from_chunk_def split: if_splits)
  from assms long obtain raw where raw: "chat (take 1500 (content chunk)) ents = Some raw"
    by (cases "chat (take 1500 (content chunk)) ents") (simp_all add: extract_relations_from_chunk_def)
  from assms long raw obtain recs where recs: "py_iter raw = Inr recs"
    by (cases "py_iter raw")
      (simp_all add: extract_relations_from_chunk_def filter_valid_relations_def)
  have "extract_relations_from_chunk chat chunk ents = map (to_relation chunk) (filter_loop ents recs)"
    by (simp add: extract_relations_from_chunk_def filter_valid_relations_def long raw recs)
  with raw recs show ?thesis by blast
qed

lemma length_schema_keys: "length schema_keys = 24"
  by (simp add: schema_keys_def relation_schema_def)

text \<open>
  C1. Every relation that \<open>extract_relations_from_chunk\<close> returns comes from a candidate of
  the reply whose predicate is, in lower case, one of the 24 names of the schema, and whose
  subject and object each match an entity of the chunk, in lower case and by containment
  in either direction. The relation carries the schema's spelling of the predicate and
  the spelling of the first matching entity for the subject and for the object. The
  result has at most one relation for each candidate that passes the checks, so a
  candidate that fails one of them leaves none.
\<close>

theorem extracted_relations_pass_the_checks:
  assumes "r \<in> set (extract_relations_from_chunk chat chunk ents)"
  shows "predicate r \<in> set schema_keys \<and> length schema_keys = 24
    \<and> subject r \<in> set ents \<and> object r \<in> set ents
    \<and> (\<exists>raw recs d s p ob.
          chat (take 1500 (content chunk)) ents = Some raw \<and> py_iter raw = Inr recs
          \<and> JObj d \<in> set recs
          \<and> get_stripped d ''subject'' = Inr s \<and> get_stripped d ''predicate'' = Inr p
          \<and> get_stripped d ''object'' = Inr ob
          \<and> fuzzy_match s (subject r) \<and> find (fuzzy_match s) ents = Some (subject r)
          \<and> fuzzy_match ob (object r) \<and> find (fuzzy_match ob) ents = Some (object r)
          \<and> str_lower p = str_lower (predicate r)
          \<and> find (same_predicate p) schema_keys = Some (predicate r)
          \<and> length (extract_relations_from_chunk chat chunk ents)
               \<le> length (filter (passes_checks ents) recs))"
proof -
  from extract_unfold [OF assms] obtain raw recs where
    raw: "chat (take 1500 (content chunk)) ents = Some raw" and recs: "py_iter raw = Inr recs"
    and eq: "extract_relations_from_chunk chat chunk ents = map (to_relation chunk) (filter_loop ents recs)"
    by blast
  from assms eq obtain rd where rd: "rd \<in> set (filter_loop ents recs)" and r: "r = to_relation chunk rd"
    by auto
  from in_filter_loop [OF rd] obtain rel where rel: "rel \<in> set recs"
    and chk: "check_relation ents rel = Inr (Some rd)" by blast
  from check_relation_Some [OF chk] obtain d s p ob where
    d: "rel = JObj d" and s: "get_stripped d ''subject'' = Inr s"
    and p: "get_stripped d ''predicate'' = Inr p" and ob: "get_stripped d ''object'' = Inr ob"
    and fs: "find (fuzzy_match s) ents = Some (rd_subject rd)"
    and fo: "find (fuzzy_match ob) ents = Some (rd_object rd)"
    and fp: "find (same_predicate p) schema_keys = Some (rd_predicate rd)"
    by blast
  have fields: "subject r = rd_subject rd" "object r = rd_object rd" "predicate r = rd_predicate rd"
    by (simp_all add: r to_relation_def)
  have len: "length (extract_relations_from_chunk chat chunk ents)
      \<le> length (filter (passes_checks ents) recs)"
    by (simp add: eq length_filter_loop)
  from find_SomeD [OF fs] find_SomeD [OF fo] find_SomeD [OF fp]
  have "subject r \<in> set ents" "fuzzy_match s (subject r)" "object r \<in> set ents"
    "fuzzy_match ob (object r)" "predicate r \<in> set schema_keys" "str_lower p = str_lower (predicate r)"
    by (simp_all add: fields same_predicate_def)
  moreover have "JObj d \<in> set recs" using rel d by simp
  ultimately show ?thesis
    using raw recs s p ob fs fo fp len length_schema_keys
    by (simp only: fields) blast
qed

theorem extracted_relations_pass_the_checks_witness:
  "extract_relations_from_chunk network_chat network_chunk network_entities =
     [\<lparr>subject = ''Neural Network'', predicate = ''uses'', object = ''Gradient Descent'',
       chunk_id = ''chunk_7'', rel_confidence = 1, rel_context = ''Extracted from text''\<rparr>]
   \<and> ''uses'' \<in> set schema_keys
   \<and> ''Neural Network'' \<in> set network_entities \<and> ''Gradient Descent'' \<in> set network_entities"
proof -
  let ?r = "\<lparr>subject = ''Neural Network'', predicate = ''uses'', object = ''Gradient Descent'',
       chunk_id = ''chunk_7'', rel_confidence = 1, rel_context = ''Extracted from text''\<rparr>"
  have e: "extract_relations_from_chunk network_chat network_chunk network_entities = [?r]"
    by code_simp
  then have "?r \<in> set (extract_relations_from_chunk network_chat network_chunk network_entities)"
    by simp
  from extracted_relations_pass_the_checks [OF this] e show ?thesis by simp
qed

section \<open>The confidence of entities and relations\<close>

text \<open>
  C9. Every entity in the mapping that \<open>normalize_entities\<close> returns, and every relation in
  the list that \<open>extract_relations_from_chunk\<close> returns, has the confidence 1.
\<close>

theorem confidence_is_one:
  "(\<forall>kv \<in> set (normalize_entities chat ents). ne_confidence (snd kv) = 1)
   \<and> (\<forall>r \<in> set (extract_relations_from_chunk rchat chunk names). rel_confidence r = 1)"
proof (intro conjI ballI)
  fix kv assume "kv \<in> set (normalize_entities chat ents)"
  then have "(fst kv, snd kv) \<in> set (normalize_entities chat ents)" by simp
  from normalized_entry_built [OF this] obtain r where
    "build_entity ents r = Inr (Some (snd kv))" by blast
  from build_entity_result [OF this] show "ne_confidence (snd kv) = 1" by simp
next
  fix r assume r: "r \<in> set (extract_relations_from_chunk rchat chunk names)"
  from extract_unfold [OF r] obtain recs where
    "extract_relations_from_chunk rchat chunk names = map (to_relation chunk) (filter_loop names recs)"
    by blast
  with r show "rel_confidence r = 1" by (auto simp: to_relation_def)
qed

theorem confidence_is_one_witness:
  "map (\<lambda>kv. ne_confidence (snd kv)) (normalize_entities svm_alias_chat svm_candidates) = [1]
   \<and> map rel_confidence (extract_relations_from_chunk network_chat network_chunk network_entities) = [1]"
proof -
  have n: "map fst (normalize_entities svm_alias_chat svm_candidates) = [''Support Vector Machine'']"
    by code_simp
  have x: "map subject (extract_relations_from_chunk network_chat network_chunk network_entities)
      = [''Neural Network'']"
    by code_simp
  from n obtain kv where kv: "normalize_entities svm_alias_chat svm_candidates = [kv]"
    by (cases "normalize_entities svm_alias_chat svm_candidates") auto
  from x obtain r where r: "extract_relations_from_chunk network_chat network_chunk network_entities = [r]"
    by (cases "extract_relations_from_chunk network_chat network_chunk network_entities") auto
  from confidence_is_one [of svm_alias_chat svm_candidates network_chat network_chunk network_entities]
  show ?thesis by (simp add: kv r)
qed

section \<open>The fallback of the query processor\<close>

lemma last_word_of_question:
  assumes "str_split (str_strip s) = w # ws"
  shows "\<exists>pre. str_strip s = pre @ last (w # ws)
      \<and> (pre = [] \<or> isspace (last pre))
      \<and> last (w # ws) \<noteq> []
      \<and> (\<forall>c \<in> set (last (w # ws)). \<not> isspace c)"
proof -
  have "split_from (str_strip s) [] \<noteq> []" using assms by (simp add: str_split_def)
  moreover have "str_strip s = [] \<or> \<not> isspace (last (str_strip s))"
    unfolding str_strip_def by (rule strip_chars_last)
  ultimately have "\<exists>pre. [] @ str_strip s = pre @ last (split_from (str_strip s) [])
      \<and> (pre = [] \<or> isspace (last pre))
      \<and> last (split_from (str_strip s) []) \<noteq> []
      \<and> (\<forall>c \<in> set (last (split_from (str_strip s) [])). \<not> isspace c)"
    by (intro last_split_from) simp_all
  then show ?thesis using assms by (simp add: str_split_def)
qed

lemma svm_no_match: "try_checks intent_checks (str_strip (str_lower ''svm?'')) = Inr None"
  by code_simp

lemma svm_fallback:
  "process_question ''svm?'' =
     Inr \<lparr>query_type = WHAT_IS, entities = [''svm?''], confidence = 3 / 10, raw_question = ''svm?''\<rparr>"
  by code_simp

lemma svm_not_token: "\<not> list_all is_token_char ''svm?'' \<and> normalize_entity_name ''svm?'' = ''svm''"
  by code_simp

text \<open>
  C10. When no pattern matches and \<open>process_question\<close> returns, its one entity is the last
  word of the question in lower case: the end of the trimmed question after its last
  white space, as it stands. \<open>_normalize_entity_name\<close> is not applied, so the entity may
  hold characters outside \<open>[a-z0-9_]\<close>: the question \<open>svm?\<close> gives the entity \<open>svm?\<close>.
\<close>

theorem fallback_entity_is_last_token:
  "(\<forall>q intent.
      try_checks intent_checks (str_strip (str_lower q)) = Inr None \<and> process_question q = Inr intent
      \<longrightarrow> query_type intent = WHAT_IS \<and> confidence intent = 3 / 10
         \<and> entities intent = [last (str_split (str_strip (str_lower q)))]
         \<and> (\<exists>pre e. entities intent = [e] \<and> str_strip (str_lower q) = pre @ e
               \<and> (pre = [] \<or> isspace (last pre)) \<and> e \<noteq> [] \<and> (\<forall>c \<in> set e. \<not> isspace c)))
   \<and> (\<exists>q intent e.
         try_checks intent_checks (str_strip (str_lower q)) = Inr None \<and> process_question q = Inr intent
         \<and> entities intent = [e] \<and> \<not> list_all is_token_char e \<and> normalize_entity_name e \<noteq> e)"
proof (rule conjI; (rule allI, rule allI, rule impI)?)
  fix q intent
  assume a: "try_checks intent_checks (str_strip (str_lower q)) = Inr None \<and> process_question q = Inr intent"
  let ?s = "str_strip (str_lower q)"
  from a have a1: "try_checks intent_checks ?s = Inr None" and a2: "process_question q = Inr intent"
    by simp_all
  have "str_split ?s \<noteq> []"
  proof
    assume "str_split ?s = []"
    with a1 a2 show False by (simp add: process_question_def Let_def)
  qed
  then obtain w ws where ws: "str_split ?s = w # ws"
    by (cases "str_split ?s") auto
  with a1 a2 have intent: "intent = \<lparr>query_type = WHAT_IS, entities = [last (w # ws)],
      confidence = 3 / 10, raw_question = ?s\<rparr>"
    by (simp add: process_question_def Let_def)
  from last_word_of_question [OF ws] obtain pre where
    "?s = pre @ last (w # ws)" "pre = [] \<or> isspace (last pre)" "last (w # ws) \<noteq> []"
    "\<forall>c \<in> set (last (w # ws)). \<not> isspace c" by blast
  then have "\<exists>pre e. entities intent = [e] \<and> ?s = pre @ e
               \<and> (pre = [] \<or> isspace (last pre)) \<and> e \<noteq> [] \<and> (\<forall>c \<in> set e. \<not> isspace c)"
    unfolding intent by auto
  then show "query_type intent = WHAT_IS \<and> confidence intent = 3 / 10
         \<and> entities intent = [last (str_split ?s)]
         \<and> (\<exists>pre e. entities intent = [e] \<and> ?s = pre @ e
               \<and> (pre = [] \<or> isspace (last pre)) \<and> e \<noteq> [] \<and> (\<forall>c \<in> set e. \<not> isspace c))"
    using intent ws by simp
next
  show "\<exists>q intent e.
         try_checks intent_checks (str_strip (str_lower q)) = Inr None \<and> process_question q = Inr intent
         \<and> entities intent = [e] \<and> \<not> list_all is_token_char e \<and> normalize_entity_name e \<noteq> e"
    using svm_no_match svm_fallback svm_not_token
    by (intro exI [of _ "''svm?''"] exI [of _ "\<lparr>query_type = WHAT_IS, entities = [''svm?''],
        confidence = 3 / 10, raw_question = ''svm?''\<rparr>"]) simp
qed

theorem fallback_entity_is_last_token_witness:
  "try_checks intent_checks (str_strip (str_lower ''svm?'')) = Inr None
   \<and> process_question ''svm?'' =
       Inr \<lparr>query_type = WHAT_IS, entities = [''svm?''], confidence = 3 / 10, raw_question = ''svm?''\<rparr>
   \<and> last (str_split (str_strip (str_lower ''svm?''))) = ''svm?''
   \<and> normalize_entity_name ''svm?'' = ''svm''"
proof -
  from fallback_entity_is_last_token
  have "try_checks intent_checks (str_strip (str_lower ''svm?'')) = Inr None
      \<and> process_question ''svm?'' = Inr \<lparr>query_type = WHAT_IS, entities = [''svm?''],
          confidence = 3 / 10, raw_question = ''svm?''\<rparr>
      \<longrightarrow> entities \<lparr>query_type = WHAT_IS, entities = [''svm?''],
          confidence = 3 / 10, raw_question = ''svm?''\<rparr> = [last (str_split (str_strip (str_lower ''svm?'')))]"
    by blast
  with svm_no_match svm_fallback svm_not_token show ?thesis by simp
qed

text \<open>
  C4. The claim says that \<open>process_question\<close> never raises. On the empty question, and on
  a question of white space only, no pattern matches and the list of words is empty:
  the fallback reads its last element and raises IndexError.
\<close>

theorem process_question_empty_raises:
  "process_question '''' = Inl IndexError \<and> process_question ''  '' = Inl IndexError"
  by code_simp

section \<open>The question about a creator\<close>

lemma creator_question_lower:
  "str_strip (str_lower ''Quem criou Support Vector Machine?'') = ''quem criou support vector machine?''"
  by code_simp

lemma creator_question_what_is:
  "try_patterns what_is_patterns extract_single_entity ''quem criou support vector machine?'' = Inr None"
  by code_simp

lemma creator_question_what_uses:
  "try_patterns what_uses_patterns extract_single_entity ''quem criou support vector machine?'' = Inr None"
  by code_simp

lemma creator_question_type_of:
  "try_patterns type_of_patterns extract_single_entity ''quem criou support vector machine?'' = Inr None"
  by code_simp

lemma creator_question_who_created:
  "try_patterns who_created_patterns extract_single_entity ''quem criou support vector machine?''
     = Inr (Some [''support_vector_machine''])"
  by code_simp

text \<open>
  C7. The question \<open>Quem criou Support Vector Machine?\<close> matches no pattern of WHAT_IS,
  WHAT_USES and WHAT_IS_TYPE_OF, and the first pattern of WHO_CREATED: the intent has the
  type WHO_CREATED and the one entity \<open>support_vector_machine\<close>.
\<close>

theorem creator_question_intent:
  "process_question ''Quem criou Support Vector Machine?'' =
     Inr \<lparr>query_type = WHO_CREATED, entities = [''support_vector_machine''],
          confidence = 8 / 10, raw_question = ''quem criou support vector machine?''\<rparr>
   \<and> try_patterns what_is_patterns extract_single_entity
        (str_strip (str_lower ''Quem criou Support Vector Machine?'')) = Inr None
   \<and> try_patterns what_uses_patterns extract_single_entity
        (str_strip (str_lower ''Quem criou Support Vector Machine?'')) = Inr None
   \<and> try_patterns type_of_patterns extract_single_entity
        (str_strip (str_lower ''Quem criou Support Vector Machine?'')) = Inr None"
  unfolding process_question_def Let_def creator_question_lower intent_checks_def
  by (simp add: creator_question_what_is creator_question_what_uses creator_question_type_of
      creator_question_who_created)

section \<open>Entity URIs and query tokens\<close>

lemma code_char_of: "n < 256 \<Longrightarrow> code (char_of n) = n"
  by (simp add: code_def)

lemma code_underscore: "code (CHR ''_'') = 95"
  by (simp add: code_def)

lemma code_char_lower:
  "code (char_lower c) = (if isupper c then code c + 32 else code c)"
  by (auto simp: char_lower_def isupper_def is_ascii_upper_def code_char_of)

lemma isspace_char_lower: "isspace (char_lower c) = isspace c"
  by (auto simp: isspace_def Let_def code_char_lower isupper_def is_ascii_upper_def)

lemma char_lower_underscore: "char_lower (CHR ''_'') = CHR ''_''"
  by (simp add: char_lower_def isupper_def is_ascii_upper_def code_underscore)

lemma sub_spaces_lower:
  "sub_spaces b (str_lower s) = str_lower (sub_spaces b s)"
  by (induction s arbitrary: b) (simp_all add: str_lower_def isspace_char_lower char_lower_underscore)

lemma alnum_or_space_keep: "alnum_or_space c \<Longrightarrow> isword c \<or> isspace c"
  by (auto simp: alnum_or_space_def isword_def isalnum_def Let_def)

lemma alnum_or_space_lower:
  "alnum_or_space c \<Longrightarrow> \<not> isspace c \<Longrightarrow>
     is_token_char (char_lower c) \<and> char_lower c \<noteq> CHR ''_''"
proof -
  assume a: "alnum_or_space c" "\<not> isspace c"
  then have "is_ascii_lower (char_lower c) \<or> is_ascii_digit (char_lower c)"
    by (auto simp: alnum_or_space_def is_ascii_lower_def is_ascii_digit_def is_ascii_upper_def
        code_char_lower isupper_def)
  moreover have "\<not> is_ascii_lower (CHR ''_'')" "\<not> is_ascii_digit (CHR ''_'')"
    by (simp_all add: is_ascii_lower_def is_ascii_digit_def code_underscore)
  ultimately show ?thesis by (auto simp: is_token_char_def)
qed

lemma isspace_not_underscore: "isspace c \<Longrightarrow> c \<noteq> CHR ''_''"
  by (auto simp: isspace_def Let_def code_underscore)

lemma str_join_Cons:
  "str_join sep (w # ws) = (if ws = [] then w else w @ sep @ str_join sep ws)"
  by (cases ws) simp_all

lemma split_from_nonempty_cur: "cur \<noteq> [] \<Longrightarrow> split_from t cur \<noteq> []"
  by (simp add: split_from_empty_iff)

lemma sub_spaces_split:
  "(cur \<noteq> [] \<longrightarrow>
      cur @ sub_spaces False t =
        str_join ''_'' (split_from t cur) @ (if t \<noteq> [] \<and> isspace (last t) then ''_'' else []))
   \<and> sub_spaces True t =
        (if split_from t [] = [] then []
         else str_join ''_'' (split_from t []) @ (if isspace (last t) then ''_'' else []))"
proof (induction t arbitrary: cur)
  case Nil
  show ?case by simp
next
  case (Cons c r)
  note B = Cons.IH [of "[]", THEN conjunct2]
  show ?case
  proof (cases "isspace c")
    case True
    have lastr: "isspace (last (c # r)) = (if r = [] then True else isspace (last r))"
      using True by simp
    have allsp: "split_from r [] = [] \<Longrightarrow> r \<noteq> [] \<Longrightarrow> isspace (last r)"
      by (simp add: split_from_empty_iff)
    have nonempty: "split_from r [] \<noteq> [] \<Longrightarrow> r \<noteq> []"
      by auto
    have A: "cur @ sub_spaces False (c # r) =
        str_join ''_'' (split_from (c # r) cur) @ (if c # r \<noteq> [] \<and> isspace (last (c # r)) then ''_'' else [])"
      if "cur \<noteq> []"
    proof (cases "split_from r [] = []")
      case e: True
      then have "sub_spaces True r = []" using B by simp
      moreover have "isspace (last (c # r))" using allsp [OF e] True by (cases "r = []") simp_all
      ultimately show ?thesis using True that e by simp
    next
      case ne: False
      then have "sub_spaces True r = str_join ''_'' (split_from r []) @ (if isspace (last r) then ''_'' else [])"
        using B by simp
      moreover have "last (c # r) = last r" using nonempty [OF ne] by simp
      ultimately show ?thesis using True that ne by (simp add: str_join_Cons)
    qed
    have B': "sub_spaces True (c # r) =
        (if split_from (c # r) [] = [] then []
         else str_join ''_'' (split_from (c # r) []) @ (if isspace (last (c # r)) then ''_'' else []))"
    proof (cases "split_from r [] = []")
      case e: True
      then show ?thesis using B True by simp
    next
      case ne: False
      have "last (c # r) = last r" using nonempty [OF ne] by simp
      then show ?thesis using B True ne by simp
    qed
    from A B' show ?thesis by blast
  next
    case False
    have lastr: "(c # r \<noteq> [] \<and> isspace (last (c # r))) = (r \<noteq> [] \<and> isspace (last r))"
      using False by auto
    have step: "cur @ sub_spaces False (c # r) =
        str_join ''_'' (split_from (c # r) cur) @ (if c # r \<noteq> [] \<and> isspace (last (c # r)) then ''_'' else [])"
      for cur
    proof -
      have "cur @ sub_spaces False (c # r) = (cur @ [c]) @ sub_spaces False r"
        using False by simp
      also have "\<dots> = str_join ''_'' (split_from r (cur @ [c])) @ (if r \<noteq> [] \<and> isspace (last r) then ''_'' else [])"
        using Cons.IH [of "cur @ [c]", THEN conjunct1] by simp
      finally show ?thesis unfolding lastr using False by simp
    qed
    have B': "sub_spaces True (c # r) =
        (if split_from (c # r) [] = [] then []
         else str_join ''_'' (split_from (c # r) []) @ (if isspace (last (c # r)) then ''_'' else []))"
    proof -
      have ne: "split_from (c # r) [] \<noteq> []"
        using False by (simp add: split_from_nonempty_cur)
      have "sub_spaces True (c # r) = [] @ sub_spaces False (c # r)" using False by simp
      also have "\<dots> = str_join ''_'' (split_from (c # r) []) @ (if c # r \<noteq> [] \<and> isspace (last (c # r)) then ''_'' else [])"
        by (rule step)
      finally show ?thesis using ne by simp
    qed
    from step B' show ?thesis by blast
  qed
qed

lemma sub_spaces_False_shape:
  "\<exists>P T. set P \<subseteq> {CHR ''_''} \<and> set T \<subseteq> {CHR ''_''}
     \<and> sub_spaces False t = P @ str_join ''_'' (str_split t) @ T"
proof (cases t)
  case Nil
  then show ?thesis by (simp add: str_split_def)
next
  case (Cons c r)
  show ?thesis
  proof (cases "isspace c")
    case True
    let ?T = "if split_from r [] = [] then [] else (if isspace (last r) then ''_'' else [])"
    have "sub_spaces False t = ''_'' @ str_join ''_'' (str_split t) @ ?T"
      using sub_spaces_split [of "[]" r, THEN conjunct2] True Cons
      by (simp add: str_split_def)
    moreover have "set ?T \<subseteq> {CHR ''_''}" by auto
    moreover have "set ''_'' \<subseteq> {CHR ''_''}" by simp
    ultimately show ?thesis by blast
  next
    case False
    let ?T = "if r \<noteq> [] \<and> isspace (last r) then ''_'' else []"
    have "[c] @ sub_spaces False r = str_join ''_'' (split_from r [c]) @ ?T"
      using sub_spaces_split [of "[c]" r, THEN conjunct1] by simp
    then have "sub_spaces False t = [] @ str_join ''_'' (str_split t) @ ?T"
      using False Cons by (simp add: str_split_def)
    moreover have "set ?T \<subseteq> {CHR ''_''}" by auto
    moreover have "set ([] :: string) \<subseteq> {CHR ''_''}" by simp
    ultimately show ?thesis by blast
  qed
qed

lemma strip_chars_padding:
  assumes "set P \<subseteq> {u}" "set T \<subseteq> {u}" "x = [] \<or> (hd x \<noteq> u \<and> last x \<noteq> u)"
  shows "strip_chars (\<lambda>c. c = u) (P @ x @ T) = x"
proof -
  have d1: "dropWhile (\<lambda>c. c = u) (P @ x @ T) = dropWhile (\<lambda>c. c = u) (x @ T)"
    using assms(1) by (intro dropWhile_append2) auto
  have T: "dropWhile (\<lambda>c. c = u) (rev T @ ys) = dropWhile (\<lambda>c. c = u) ys" for ys
    using assms(2) by (intro dropWhile_append2) auto
  show ?thesis
  proof (cases "x = []")
    case True
    have "dropWhile (\<lambda>c. c = u) (P @ x @ T) = []"
      using assms(1,2) True by (auto simp: dropWhile_eq_Nil_conv)
    then have "strip_chars (\<lambda>c. c = u) (P @ x @ T) = []"
      by (simp only: strip_chars_def rev.simps dropWhile.simps)
    with True show ?thesis by simp
  next
    case False
    with assms(3) have h: "hd x \<noteq> u" "last x \<noteq> u" by auto
    have "dropWhile (\<lambda>c. c = u) (x @ T) = x @ T"
      using False h(1) by (cases x) auto
    moreover have "dropWhile (\<lambda>c. c = u) (rev x) = rev x"
      using False h(2) by (cases "rev x") (auto simp: last_rev [symmetric] simp del: last_rev)
    ultimately show ?thesis
      using d1 by (simp add: strip_chars_def T [of "rev x"])
  qed
qed

lemma split_from_words:
  "w \<in> set (split_from t cur) \<Longrightarrow>
     w \<noteq> [] \<and> set w \<subseteq> set cur \<union> {c \<in> set t. \<not> isspace c}"
proof (induction t arbitrary: cur)
  case Nil
  then show ?case by (auto split: if_splits)
next
  case (Cons c r)
  show ?case
  proof (cases "isspace c")
    case True
    with Cons.prems have "w = cur \<and> cur \<noteq> [] \<or> w \<in> set (split_from r [])"
      by (auto split: if_splits)
    then show ?thesis using Cons.IH [of "[]"] by auto
  next
    case False
    with Cons.prems have "w \<in> set (split_from r (cur @ [c]))" by simp
    from Cons.IH [OF this] False show ?thesis by auto
  qed
qed

lemma str_join_ends:
  assumes "ws \<noteq> []" and "\<forall>w \<in> set ws. w \<noteq> [] \<and> u \<notin> set w"
  shows "str_join sep ws \<noteq> [] \<and> hd (str_join sep ws) \<noteq> u \<and> last (str_join sep ws) \<noteq> u"
  using assms
proof (induction ws)
  case Nil
  then show ?case by simp
next
  case (Cons w ws)
  from Cons.prems have w: "w \<noteq> []" "u \<notin> set w" by auto
  then have hw: "hd w \<noteq> u" "last w \<noteq> u" by (metis hd_in_set, metis last_in_set)
  show ?case
  proof (cases "ws = []")
    case True
    with w hw show ?thesis by simp
  next
    case False
    with Cons have "str_join sep ws \<noteq> []" "last (str_join sep ws) \<noteq> u" by auto
    with w hw False show ?thesis by (simp add: str_join_Cons)
  qed
qed

lemma set_str_join: "set (str_join sep ws) \<subseteq> set sep \<union> \<Union> (set ` set ws)"
  by (induction ws) (auto simp: str_join_Cons split: if_splits)

lemma clean_name_plain:
  assumes H1: "\<forall>c \<in> set name. alnum_or_space c"
    and H2: "\<forall>w \<in> set (str_split (str_lower name)). w \<notin> set stop_words"
  shows "clean_name name = normalize_entity_name name"
proof -
  let ?t = "str_lower name"
  let ?J = "str_join ''_'' (str_split ?t)"
  have keep: "filter (\<lambda>c. isword c \<or> isspace c \<or> c = CHR ''-'') name = name"
    using H1 alnum_or_space_keep by (auto simp: filter_id_conv)
  have t_chars: "isspace c \<or> (is_token_char c \<and> c \<noteq> CHR ''_'')" if "c \<in> set ?t" for c
  proof -
    from that obtain c0 where c0: "c0 \<in> set name" "c = char_lower c0"
      by (auto simp: str_lower_def)
    with H1 have "alnum_or_space c0" by blast
    then show ?thesis
      using alnum_or_space_lower [of c0] isspace_char_lower [of c0] c0(2) by auto
  qed
  have words: "w \<noteq> [] \<and> CHR ''_'' \<notin> set w \<and> (\<forall>c \<in> set w. is_token_char c)"
    if "w \<in> set (str_split ?t)" for w
  proof -
    from that have "w \<in> set (split_from ?t [])" by (simp add: str_split_def)
    from split_from_words [OF this]
    have "w \<noteq> []" "set w \<subseteq> {c \<in> set ?t. \<not> isspace c}" by auto
    with t_chars show ?thesis by blast
  qed
  have ends: "?J = [] \<or> (hd ?J \<noteq> CHR ''_'' \<and> last ?J \<noteq> CHR ''_'')"
  proof (cases "str_split ?t = []")
    case True
    then show ?thesis by simp
  next
    case False
    moreover have "\<forall>w \<in> set (str_split ?t). w \<noteq> [] \<and> CHR ''_'' \<notin> set w"
      using words by blast
    ultimately show ?thesis using str_join_ends by blast
  qed
  from sub_spaces_False_shape [of ?t] obtain P T where
    PT: "set P \<subseteq> {CHR ''_''}" "set T \<subseteq> {CHR ''_''}" "sub_spaces False ?t = P @ ?J @ T"
    by blast
  have "clean_name name = strip_chars (\<lambda>c. c = CHR ''_'') (sub_spaces False ?t)"
    by (simp add: clean_name_def Let_def keep sub_spaces_lower)
  also have "\<dots> = ?J"
    unfolding PT(3) using PT(1,2) ends by (rule strip_chars_padding)
  finally have clean: "clean_name name = ?J" .
  have "filter (\<lambda>word. word \<notin> set stop_words) (str_split ?t) = str_split ?t"
    using H2 by (simp add: filter_id_conv)
  moreover have "filter is_token_char ?J = ?J"
  proof -
    have "is_token_char c" if "c \<in> set ?J" for c
    proof -
      from that set_str_join [of "''_''" "str_split ?t"]
      have "c = CHR ''_'' \<or> (\<exists>w \<in> set (str_split ?t). c \<in> set w)" by auto
      then show ?thesis using words by (auto simp: is_token_char_def)
    qed
    then show ?thesis by (simp add: filter_id_conv)
  qed
  ultimately have "normalize_entity_name name = ?J"
    by (simp add: normalize_entity_name_def Let_def)
  with clean show ?thesis by simp
qed

lemma svm_plain:
  "(\<forall>c \<in> set ''Support Vector Machine''. alnum_or_space c)
   \<and> (\<forall>w \<in> set (str_split (str_lower ''Support Vector Machine'')). w \<notin> set stop_words)"
  by code_simp

lemma svm_token: "normalize_entity_name ''Support Vector Machine'' = ''support_vector_machine''"
  by code_simp

lemma svm_question:
  "process_question ''what is a support vector machine'' =
     Inr \<lparr>query_type = WHAT_IS, entities = [''support_vector_machine''], confidence = 8 / 10,
          raw_question = ''what is a support vector machine''\<rparr>"
  by code_simp

text \<open>
  Names on which the two derivations agree: on a name made of ASCII letters, ASCII digits
  and white space, none of whose words is a stop word in lower case, the entity
  normalization of the query processor gives the token of the builder's entity URI. That
  holds for \<open>Support Vector Machine\<close>, and the entity of the question
  \<open>what is a support vector machine\<close> is the builder's token for that name.
\<close>

lemma plain_names_agree:
  "(\<forall>name.
      (\<forall>c \<in> set name. alnum_or_space c)
      \<and> (\<forall>w \<in> set (str_split (str_lower name)). w \<notin> set stop_words)
      \<longrightarrow> create_entity_uri name = ENTITY (normalize_entity_name name))
   \<and> create_entity_uri ''Support Vector Machine''
       = ENTITY (normalize_entity_name ''Support Vector Machine'')
   \<and> (\<exists>intent. process_question ''what is a support vector machine'' = Inr intent
         \<and> map ENTITY (entities intent) = [create_entity_uri ''Support Vector Machine''])"
proof -
  have general: "create_entity_uri name = ENTITY (normalize_entity_name name)"
    if "(\<forall>c \<in> set name. alnum_or_space c)
      \<and> (\<forall>w \<in> set (str_split (str_lower name)). w \<notin> set stop_words)" for name
    using that clean_name_plain [of name] by (simp add: create_entity_uri_def)
  have svm: "create_entity_uri ''Support Vector Machine''
       = ENTITY (normalize_entity_name ''Support Vector Machine'')"
    using svm_plain by (rule general)
  have "map ENTITY (entities \<lparr>query_type = WHAT_IS, entities = [''support_vector_machine''],
          confidence = 8 / 10, raw_question = ''what is a support vector machine''\<rparr>)
        = [create_entity_uri ''Support Vector Machine'']"
    by (simp add: svm svm_token)
  with svm_question have "\<exists>intent. process_question ''what is a support vector machine'' = Inr intent
         \<and> map ENTITY (entities intent) = [create_entity_uri ''Support Vector Machine'']"
    by (intro exI conjI)
  with general svm show ?thesis by (intro conjI allI impI)
qed

lemma bag_of_words_question:
  "process_question ''what is bag of words'' =
     Inr \<lparr>query_type = WHAT_IS, entities = [''bag_words''], confidence = 8 / 10,
          raw_question = ''what is bag of words''\<rparr>"
  by code_simp

text \<open>
  C2. The claim says that the entity normalization of the query processor gives, for
  every name, the token of the builder's entity URI. The query processor drops the stop
  words and the builder keeps them: for \<open>Theory of Mind\<close> the query token is
  \<open>theory_mind\<close> and the token of the URI is \<open>theory_of_mind\<close>, and the question
  \<open>what is bag of words\<close> asks for \<open>bag_words\<close> where the graph holds \<open>bag_of_words\<close>
  for the entity \<open>Bag of Words\<close>.
\<close>

theorem stop_word_tokens_differ:
  "clean_name ''Theory of Mind'' = ''theory_of_mind''
   \<and> normalize_entity_name ''Theory of Mind'' = ''theory_mind''
   \<and> create_entity_uri ''Theory of Mind'' \<noteq> ENTITY (normalize_entity_name ''Theory of Mind'')
   \<and> process_question ''what is bag of words'' =
       Inr \<lparr>query_type = WHAT_IS, entities = [''bag_words''], confidence = 8 / 10,
            raw_question = ''what is bag of words''\<rparr>
   \<and> create_entity_uri ''Bag of Words'' = ENTITY ''bag_of_words''"
proof -
  have c: "clean_name ''Theory of Mind'' = ''theory_of_mind''" by code_simp
  have n: "normalize_entity_name ''Theory of Mind'' = ''theory_mind''" by code_simp
  have b: "clean_name ''Bag of Words'' = ''bag_of_words''" by code_simp
  show ?thesis by (simp add: c n b bag_of_words_question create_entity_uri_def ENTITY_def)
qed

section \<open>The questions on which the query processor raises\<close>

lemma min_list_le: "x \<in> set xs \<Longrightarrow> min_list xs \<le> (x :: nat)"
  by (cases "xs = []") (simp_all add: min_list_Min)

lemma rmatch_groups:
  "m \<in> set (rmatch r s caps) \<Longrightarrow> length caps + min_groups r \<le> length (snd m)"
proof (induction r s caps arbitrary: m rule: rmatch.induct)
  case (1 l s caps)
  then show ?case by (auto split: option.splits)
next
  case (2 a s caps)
  then show ?case by (auto split: list.splits if_splits)
next
  case (3 a s caps)
  then show ?case by auto
next
  case (4 a s caps)
  then show ?case by (auto split: list.splits if_splits)
next
  case (5 a s caps)
  then show ?case by auto
next
  case (6 rs s caps)
  from "6.prems" obtain r where r: "r \<in> set rs" "m \<in> set (rmatch r s caps)" by auto
  from "6.IH" [OF r] have "length caps + min_groups r \<le> length (snd m)" .
  moreover have "min_groups (Alt rs) \<le> min_groups r"
    using r(1) by (auto intro: min_list_le)
  ultimately show ?case by simp
next
  case (7 s caps)
  then show ?case by simp
next
  case (8 r rs s caps)
  from "8.prems" obtain m' where m': "m' \<in> set (rmatch r s caps)"
    "m \<in> set (rmatch (Seq rs) (fst m') (snd m'))" by auto
  from "8.IH"(1) [OF m'(1)] have "length caps + min_groups r \<le> length (snd m')" .
  moreover from "8.IH"(2) [OF m'(1) m'(2)]
  have "length (snd m') + min_groups (Seq rs) \<le> length (snd m)" .
  ultimately show ?case by simp
next
  case (9 r s caps)
  from "9.prems" obtain m' where m': "m' \<in> set (rmatch r s caps)" "snd m = snd m' @ [take (length s - length (fst m')) s]"
    by auto
  from "9.IH" [OF m'(1)] m'(2) show ?case by simp
qed

lemma search_groups: "search r s = Some caps \<Longrightarrow> min_groups r \<le> length caps"
proof (induction s)
  case Nil
  then obtain m ms where "rmatch r [] [] = m # ms" "caps = snd m"
    by (auto split: list.splits)
  then have "m \<in> set (rmatch r [] [])" by simp
  from rmatch_groups [OF this] \<open>caps = snd m\<close> show ?case by simp
next
  case (Cons c cs)
  show ?case
  proof (cases "rmatch r (c # cs) []")
    case Nil
    with Cons show ?thesis by simp
  next
    case (Cons m ms)
    then have "m \<in> set (rmatch r (c # cs) [])" by simp
    from rmatch_groups [OF this] Cons Cons.prems show ?thesis by simp
  qed
qed

lemma try_patterns_returns:
  assumes "\<forall>p \<in> set ps. n \<le> min_groups p"
    and "\<And>m. n \<le> length m \<Longrightarrow> \<exists>ents. ex m = Inr ents"
  shows "\<exists>res. try_patterns ps ex q = Inr res"
  using assms(1)
proof (induction ps)
  case Nil
  show ?case by simp
next
  case (Cons p ps)
  then obtain res where res: "try_patterns ps ex q = Inr res" by auto
  show ?case
  proof (cases "search p q")
    case None
    with res show ?thesis by simp
  next
    case (Some m)
    from search_groups [OF Some] Cons.prems have "n \<le> length m" by auto
    from assms(2) [OF this] obtain ents where "ex m = Inr ents" by blast
    with Some res show ?thesis by simp
  qed
qed

lemma extract_single_entity_returns: "1 \<le> length m \<Longrightarrow> \<exists>ents. extract_single_entity m = Inr ents"
  by (simp add: extract_single_entity_def group_def)

lemma extract_two_entities_returns: "2 \<le> length m \<Longrightarrow> \<exists>ents. extract_two_entities m = Inr ents"
  by (simp add: extract_two_entities_def group_def)

lemma extract_type_entity_returns: "1 \<le> length m \<Longrightarrow> \<exists>ents. extract_type_entity m = Inr ents"
  by (simp add: extract_type_entity_def group_def Let_def)

lemma pattern_groups:
  "\<forall>p \<in> set what_is_patterns. 1 \<le> min_groups p"
  "\<forall>p \<in> set what_uses_patterns. 1 \<le> min_groups p"
  "\<forall>p \<in> set type_of_patterns. 1 \<le> min_groups p"
  "\<forall>p \<in> set who_created_patterns. 1 \<le> min_groups p"
  "\<forall>p \<in> set how_related_patterns. 2 \<le> min_groups p"
  "\<forall>p \<in> set list_by_type_patterns. 1 \<le> min_groups p"
  "\<forall>p \<in> set find_similar_patterns. 1 \<le> min_groups p"
  by code_simp+

lemma try_checks_returns: "\<exists>res. try_checks intent_checks q = Inr res"
proof -
  obtain r1 where r1: "try_patterns what_is_patterns extract_single_entity q = Inr r1"
    using try_patterns_returns [of what_is_patterns 1 extract_single_entity q, OF pattern_groups(1) extract_single_entity_returns] by blast
  obtain r2 where r2: "try_patterns what_uses_patterns extract_single_entity q = Inr r2"
    using try_patterns_returns [of what_uses_patterns 1 extract_single_entity q, OF pattern_groups(2) extract_single_entity_returns] by blast
  obtain r3 where r3: "try_patterns type_of_patterns extract_single_entity q = Inr r3"
    using try_patterns_returns [of type_of_patterns 1 extract_single_entity q, OF pattern_groups(3) extract_single_entity_returns] by blast
  obtain r4 where r4: "try_patterns who_created_patterns extract_single_entity q = Inr r4"
    using try_patterns_returns [of who_created_patterns 1 extract_single_entity q, OF pattern_groups(4) extract_single_entity_returns] by blast
  obtain r5 where r5: "try_patterns how_related_patterns extract_two_entities q = Inr r5"
    using try_patterns_returns [of how_related_patterns 2 extract_two_entities q, OF pattern_groups(5) extract_two_entities_returns] by blast
  obtain r6 where r6: "try_patterns list_by_type_patterns extract_type_entity q = Inr r6"
    using try_patterns_returns [of list_by_type_patterns 1 extract_type_entity q, OF pattern_groups(6) extract_type_entity_returns] by blast
  obtain r7 where r7: "try_patterns find_similar_patterns extract_single_entity q = Inr r7"
    using try_patterns_returns [of find_similar_patterns 1 extract_single_entity q, OF pattern_groups(7) extract_single_entity_returns] by blast
  show ?thesis
    by (simp add: intent_checks_def r1 r2 r3 r4 r5 r6 r7 split: option.splits)
qed

lemma empty_question_no_match: "try_checks intent_checks [] = Inr None"
  by code_simp

lemma strip_chars_all: "\<forall>c \<in> set s. P c \<Longrightarrow> strip_chars P s = []"
  by (auto simp: strip_chars_def dropWhile_eq_Nil_conv dest: set_dropWhileD)

lemma strip_chars_empty_iff: "strip_chars P s = [] \<longleftrightarrow> (\<forall>c \<in> set s. P c)"
proof
  assume "strip_chars P s = []"
  then have "dropWhile P (rev (dropWhile P s)) = []" by (simp add: strip_chars_def)
  then have "\<forall>c \<in> set (dropWhile P s). P c" by (simp add: dropWhile_eq_Nil_conv)
  then have "dropWhile P s = []"
    by (metis hd_dropWhile hd_in_set)
  then show "\<forall>c \<in> set s. P c" by (simp add: dropWhile_eq_Nil_conv)
qed (rule strip_chars_all)

lemma blank_question_iff:
  "str_split (str_strip (str_lower q)) = [] \<longleftrightarrow> (\<forall>c \<in> set q. isspace c)"
proof -
  have low: "(\<forall>c \<in> set (str_lower q). isspace c) \<longleftrightarrow> (\<forall>c \<in> set q. isspace c)"
    by (simp add: str_lower_def isspace_char_lower)
  have "str_split (str_strip (str_lower q)) = [] \<longleftrightarrow> str_strip (str_lower q) = []"
  proof
    assume "str_split (str_strip (str_lower q)) = []"
    then have all: "\<forall>c \<in> set (str_strip (str_lower q)). isspace c"
      by (simp add: str_split_def split_from_empty_iff)
    show "str_strip (str_lower q) = []"
    proof (rule ccontr)
      assume ne: "str_strip (str_lower q) \<noteq> []"
      then have "\<not> isspace (last (str_strip (str_lower q)))"
        using strip_chars_last [of isspace "str_lower q"] by (simp add: str_strip_def)
      with all ne show False by (meson last_in_set)
    qed
  next
    assume "str_strip (str_lower q) = []"
    then show "str_split (str_strip (str_lower q)) = []" by (simp add: str_split_def)
  qed
  then show ?thesis by (simp add: str_strip_def strip_chars_empty_iff low)
qed

text \<open>
  \<open>process_question\<close> raises on the questions that hold white space only, and on no other:
  no extractor raises, since every pattern has the groups that its extractor reads.
\<close>

lemma process_question_raises_iff_blank:
  "(\<exists>e. process_question q = Inl e) \<longleftrightarrow> (\<forall>c \<in> set q. isspace c)"
proof
  assume "\<exists>e. process_question q = Inl e"
  then obtain e where e: "process_question q = Inl e" by blast
  from try_checks_returns obtain res where
    res: "try_checks intent_checks (str_strip (str_lower q)) = Inr res" by blast
  from e res have "str_split (str_strip (str_lower q)) = []"
    by (cases res; cases "str_split (str_strip (str_lower q))")
      (auto simp: process_question_def Let_def)
  then show "\<forall>c \<in> set q. isspace c" by (simp only: blank_question_iff)
next
  assume "\<forall>c \<in> set q. isspace c"
  then have s: "str_split (str_strip (str_lower q)) = []" by (simp only: blank_question_iff)
  then have "str_strip (str_lower q) = []"
    using blank_question_iff [of q] strip_chars_empty_iff [of isspace "str_lower q"]
    by (simp add: str_strip_def str_lower_def isspace_char_lower)
  then show "\<exists>e. process_question q = Inl e"
    by (simp add: process_question_def Let_def empty_question_no_match str_split_def)
qed

end
